theory Spec2Isabelle
  imports Complex_Main
begin

section \<open>JavaScript values and exceptions\<close>

text \<open>
  The values a parsed JSON body can hold, together with \<open>undefined\<close> (what reading a
  missing property gives). JSON numbers are modelled as reals: rounding of IEEE doubles
  and the infinities are outside the model, and \<open>JSON.parse\<close> never yields NaN.
  An object is the list of its members.
\<close>

datatype jv =
    Undefined
  | Null
  | Bool bool
  | Num real
  | Str string
  | Arr "jv list"
  | Obj "(string \<times> jv) list"

text \<open>
  What a \<open>try\<close> block can catch: an \<open>Error\<close> with its message (a rejected fetch, a
  failed parse, the loader's own \<open>throw new Error\<close>) or a \<open>TypeError\<close> raised by the
  language. The text of a \<open>TypeError\<close> is chosen by the JavaScript engine; the strings
  used below stand for it.
\<close>

datatype exn = Error string | TypeError string

fun message :: "exn \<Rightarrow> string" where
  "message (Error m) = m"
| "message (TypeError m) = m"

text \<open>
  Property read \<open>v.k\<close>: throws on \<open>undefined\<close> and \<open>null\<close>, gives the member of an
  object (or \<open>undefined\<close> when it has none; a parsed object has each key once), the
  \<open>length\<close> of an array or string, and \<open>undefined\<close> on every other primitive. Only
  the properties the loaders read are covered.
\<close>

fun get_prop :: "jv \<Rightarrow> string \<Rightarrow> exn + jv" where
  "get_prop Undefined k = Inl (TypeError (''Cannot read properties of undefined (reading '' @ k @ '')''))"
| "get_prop Null k = Inl (TypeError (''Cannot read properties of null (reading '' @ k @ '')''))"
| "get_prop (Obj kvs) k = Inr (case map_of kvs k of None \<Rightarrow> Undefined | Some v \<Rightarrow> v)"
| "get_prop (Arr xs) k = Inr (if k = ''length'' then Num (real (length xs)) else Undefined)"
| "get_prop (Str s) k = Inr (if k = ''length'' then Num (real (length s)) else Undefined)"
| "get_prop (Bool b) k = Inr Undefined"
| "get_prop (Num x) k = Inr Undefined"

text \<open>
  The numbers of a decoded raster band: a finite value or NaN. \<open>Math.min\<close>,
  \<open>Math.max\<close> and \<open>*\<close> give NaN as soon as one argument is NaN.
\<close>

datatype number = Finite real | NaN

fun math_max :: "number \<Rightarrow> number \<Rightarrow> number" where
  "math_max (Finite a) (Finite b) = Finite (max a b)"
| "math_max _ _ = NaN"

fun math_min :: "number \<Rightarrow> number \<Rightarrow> number" where
  "math_min (Finite a) (Finite b) = Finite (min a b)"
| "math_min _ _ = NaN"

fun times_number :: "number \<Rightarrow> number \<Rightarrow> number" where
  "times_number (Finite a) (Finite b) = Finite (a * b)"
| "times_number _ _ = NaN"

text \<open>
  One entry of the \<open>values\<close> array handed to the pixel colour function, and the
  raster's \<open>noDataValue\<close>: \<open>undefined\<close>, \<open>null\<close> or a number.
\<close>

datatype sample = NoSample | NullSample | Sample number

text \<open>\<open>a === b\<close> on samples: NaN is not equal to anything, itself included.\<close>

fun strict_eq :: "sample \<Rightarrow> sample \<Rightarrow> bool" where
  "strict_eq NoSample NoSample = True"
| "strict_eq NullSample NullSample = True"
| "strict_eq (Sample (Finite a)) (Sample (Finite b)) = (a = b)"
| "strict_eq _ _ = False"

text \<open>The number an arithmetic operator makes of a sample.\<close>

fun to_number :: "sample \<Rightarrow> number" where
  "to_number NoSample = NaN"
| "to_number NullSample = Finite 0"
| "to_number (Sample n) = n"

text \<open>\<open>a == null\<close>: true of \<open>null\<close> and \<open>undefined\<close> only.\<close>

fun loose_eq_null :: "sample \<Rightarrow> bool" where
  "loose_eq_null NoSample = True"
| "loose_eq_null NullSample = True"
| "loose_eq_null (Sample n) = False"

section \<open>Colours and styles\<close>

text \<open>
  The CSS colour strings the code builds, kept as terms: \<open>rgba(r, g, b, a)\<close>,
  \<open>hsl(h, s%, l%)\<close> and a colour name. Printing a number into the string is not
  modelled.
\<close>

datatype css_color =
    Rgba number number number real
  | Hsl real nat nat
  | Named string

record path_style =
  fillColor :: css_color
  color :: css_color
  weight :: real
  fillOpacity :: real

subsection \<open>The raster layer's \<open>pixelValuesToColorFn\<close>\<close>

text \<open>\<open>values[0]\<close>: \<open>undefined\<close> when the array is empty.\<close>

fun first_band :: "sample list \<Rightarrow> sample" where
  "first_band [] = NoSample"
| "first_band (v # vs) = v"

text \<open>The result \<open>None\<close> is the \<open>null\<close> the function returns: the pixel is not drawn.\<close>

definition pixelValuesToColorFn :: "sample \<Rightarrow> sample list \<Rightarrow> css_color option" where
  "pixelValuesToColorFn noDataValue values =
     (let v = first_band values in
      if strict_eq v noDataValue \<or> loose_eq_null v then None
      else
        (let intensity =
               math_min (Finite 255) (math_max (Finite 0) (times_number (to_number v) (Finite 255)))
         in Some (Rgba intensity intensity intensity 0.5)))"

subsection \<open>The vector overlay's \<open>style\<close>\<close>

text \<open>
  The body of the \<open>style\<close> callback on a numeric \<open>feature.properties.value\<close>. The
  comparison with \<open>0.3\<close> is made on the value as read, the hue on the clamped value.
\<close>

definition style :: "real \<Rightarrow> path_style" where
  "style ndviValue =
     (let stressValue = min 1 (max 0 ndviValue);
          h = stressValue * 120
      in if ndviValue \<le> 0.3
         then \<lparr>fillColor = Hsl h 100 50, color = Named ''red'', weight = 0.5, fillOpacity = 0.7\<rparr>
         else \<lparr>fillColor = Hsl h 100 50, color = Named ''green'', weight = 0.5, fillOpacity = 0.7\<rparr>)"


section \<open>Layers, the map and the layer control\<close>

record latLngBounds =
  southWest :: "(real \<times> real) option"
  northEast :: "(real \<times> real) option"

text \<open>
  Modelled from the spec: \<open>bounds.isValid()\<close> belongs to the mapping library; bounds
  are valid when both corners are set.
\<close>

definition isValid :: "latLngBounds \<Rightarrow> bool" where
  "isValid b = (southWest b \<noteq> None \<and> northEast b \<noteq> None)"

text \<open>
  What the loader uses of a parsed raster: its \<open>noDataValue\<close>, and
  \<open>layerBounds\<close>, the result of \<open>getBounds()\<close> on the layer built from it
  (\<open>None\<close> for a falsy result). The grid of pixels stays with the raster library.
\<close>

record georaster =
  noDataValue :: sample
  layerBounds :: "latLngBounds option"

text \<open>
  The popup bound to a feature: the value printed by \<open>toFixed(3)\<close> (kept as the
  number of thousandths), the unit label and the number of the dataset.
\<close>

record popup =
  ndviFixed3 :: int
  unitLabel :: jv
  datasetNo :: nat

record child =
  feature :: jv
  pathStyle :: path_style
  popupContent :: popup

text \<open>
  A layer object with its identity (Leaflet's stamp). A raster layer colours its pixels
  with \<open>pixelValuesToColorFn (noDataValue g)\<close>; a GeoJSON layer holds one child per
  feature.
\<close>

datatype layer =
    TileLayer nat
  | GeoRasterLayer nat georaster
  | GeoJSON nat "child list"

fun lid :: "layer \<Rightarrow> nat" where
  "lid (TileLayer n) = n"
| "lid (GeoRasterLayer n g) = n"
| "lid (GeoJSON n cs) = n"

fun is_geojson :: "layer \<Rightarrow> bool" where
  "is_geojson (GeoJSON n cs) = True"
| "is_geojson _ = False"

datatype viewport = SetView "real \<times> real" nat | FitBounds latLngBounds

text \<open>What the page does that can be observed from outside, in order.\<close>

datatype event =
    SetStatus string
  | SetLoading bool
  | Fetch string
  | ConsoleLog string
  | LogStressDataset nat jv
  | ConsoleWarn string
  | ConsoleError string exn

text \<open>
  The mutable cells of the page: the layers on the map (\<open>mapRef.current\<close>) and its
  viewport, the entries of the layer control (\<open>layerControlRef.current\<close>: layer, name,
  and whether it is an overlay), \<open>stressLayersRef.current\<close>, the \<open>status\<close> of
  \<open>Map\<close>, the \<open>loading\<close> flag of \<open>App\<close>, the next free layer stamp and the trace
  of events.
\<close>

record state =
  mapLayers :: "layer list"
  viewport :: viewport
  control :: "(layer \<times> string \<times> bool) list"
  stressLayers :: "layer list"
  status :: string
  loading :: bool
  nextId :: nat
  trace :: "event list"

definition emit :: "event \<Rightarrow> state \<Rightarrow> state" where
  "emit e s = s\<lparr>trace := trace s @ [e]\<rparr>"

definition setStatus :: "string \<Rightarrow> state \<Rightarrow> state" where
  "setStatus m s = s\<lparr>status := m, trace := trace s @ [SetStatus m]\<rparr>"

definition setLoading :: "bool \<Rightarrow> state \<Rightarrow> state" where
  "setLoading b s = s\<lparr>loading := b, trace := trace s @ [SetLoading b]\<rparr>"

text \<open>\<open>App\<close> renders the "Loading..." heading exactly while the flag is set.\<close>

definition App_shows_loading :: "state \<Rightarrow> bool" where
  "App_shows_loading s = loading s"

subsection \<open>The mapping library\<close>

text \<open>
  Modelled from the spec: the Map Surface and the Layer Registry belong to the mapping
  library, which is not part of the repository. The Map Surface hosts each layer at most
  once and removing an absent layer changes nothing; the Layer Registry's
  \<open>add(name, layer)\<close> registers a togglable overlay and \<open>remove(layer)\<close> unregisters
  it, a no-op if it is absent.
\<close>

definition hasLayer :: "layer \<Rightarrow> state \<Rightarrow> bool" where
  "hasLayer l s = (lid l \<in> set (map lid (mapLayers s)))"

definition addTo :: "layer \<Rightarrow> state \<Rightarrow> state" where
  "addTo l s = (if hasLayer l s then s else s\<lparr>mapLayers := mapLayers s @ [l]\<rparr>)"

definition map_removeLayer :: "layer \<Rightarrow> state \<Rightarrow> state" where
  "map_removeLayer l s = s\<lparr>mapLayers := filter (\<lambda>x. lid x \<noteq> lid l) (mapLayers s)\<rparr>"

definition addOverlay :: "layer \<Rightarrow> string \<Rightarrow> state \<Rightarrow> state" where
  "addOverlay l name s = s\<lparr>control := control s @ [(l, name, True)]\<rparr>"

definition control_removeLayer :: "layer \<Rightarrow> state \<Rightarrow> state" where
  "control_removeLayer l s = s\<lparr>control := filter (\<lambda>e. lid (fst e) \<noteq> lid l) (control s)\<rparr>"

definition fitBounds :: "latLngBounds \<Rightarrow> state \<Rightarrow> state" where
  "fitBounds b s = s\<lparr>viewport := FitBounds b\<rparr>"

text \<open>
  The state after the first block of the effect (and the initial values of the two
  \<open>useState\<close> cells): the map with its tile layer, viewed at \<open>[0, 0]\<close> zoom 2, and a
  layer control holding the base layer only.
\<close>

definition mount :: state where
  "mount = \<lparr>mapLayers = [TileLayer 0], viewport = SetView (0, 0) 2,
            control = [(TileLayer 0, ''OpenStreetMap'', False)], stressLayers = [],
            status = ''Loading map...'', loading = True, nextId = 1, trace = []\<rparr>"

section \<open>The network and the raster parser\<close>

text \<open>
  A settled promise is its outcome: \<open>Inl\<close> the rejection, \<open>Inr\<close> the value. A
  response carries what the loaders read of it; \<open>arrayBuffer\<close> and \<open>json\<close> are the
  outcomes of the two body readers.
\<close>

record response =
  ok :: bool
  statusText :: string
  arrayBuffer :: "exn + nat list"
  json :: "exn + jv"

record env =
  fetch :: "string \<Rightarrow> exn + response"
  parseGeoraster :: "nat list \<Rightarrow> exn + georaster"

text \<open>
  \<open>Promise.all\<close>: the values in order, or a rejection as soon as one promise rejects.
  Which rejection wins when several promises reject is a matter of timing; the model
  takes the first in list order.
\<close>

fun promise_all :: "(exn + 'a) list \<Rightarrow> exn + 'a list" where
  "promise_all [] = Inr []"
| "promise_all (Inl e # ps) = Inl e"
| "promise_all (Inr x # ps) =
     (case promise_all ps of Inl e \<Rightarrow> Inl e | Inr xs \<Rightarrow> Inr (x # xs))"

section \<open>The vector overlay loader\<close>

definition urls :: "string list" where
  "urls = [''/stress_sample.json'', ''/stress_sample_2.json'']"

text \<open>A natural number in decimal, as a template literal prints it.\<close>

definition digit :: "nat \<Rightarrow> char" where
  "digit d = ''0123456789'' ! d"

fun string_of_nat :: "nat \<Rightarrow> string" where
  "string_of_nat n =
     (if n < 10 then [digit n] else string_of_nat (n div 10) @ [digit (n mod 10)])"

text \<open>
  \<open>x.toFixed(3)\<close>, as the number of thousandths printed: the nearest one, and of two
  equally near the one larger in magnitude (for \<open>x\<close> below \<open>10^21\<close> in magnitude).
\<close>

definition toFixed3 :: "real \<Rightarrow> int" where
  "toFixed3 x = (if x < 0 then - \<lfloor>- x * 1000 + 1 / 2\<rfloor> else \<lfloor>x * 1000 + 1 / 2\<rfloor>)"

text \<open>The values that \<open>||\<close> skips.\<close>

fun falsy :: "jv \<Rightarrow> bool" where
  "falsy Undefined = True"
| "falsy Null = True"
| "falsy (Bool b) = (\<not> b)"
| "falsy (Num x) = (x = 0)"
| "falsy (Str s) = (s = [])"
| "falsy (Arr xs) = False"
| "falsy (Obj kvs) = False"

text \<open>
  What the two callbacks \<open>style\<close> and \<open>onEachFeature\<close> make of one feature of dataset
  \<open>datasetIndex\<close>. Both read \<open>feature.properties.value\<close>, which throws when the
  feature has no \<open>properties\<close>. On a value that is not a number \<open>style\<close> returns
  without throwing and \<open>toFixed\<close> in \<open>onEachFeature\<close> throws, so the style computed
  there is never seen; the model goes to the exception at once.
\<close>

definition featureLayer :: "nat \<Rightarrow> jv \<Rightarrow> exn + child" where
  "featureLayer datasetIndex f =
     (case get_prop f ''properties'' of
        Inl e \<Rightarrow> Inl e
      | Inr props \<Rightarrow>
          (case get_prop props ''value'' of
             Inl e \<Rightarrow> Inl e
           | Inr ndviValue \<Rightarrow>
               (case ndviValue of
                  Num x \<Rightarrow>
                    (case get_prop props ''unit'' of
                       Inl e \<Rightarrow> Inl e
                     | Inr u \<Rightarrow>
                         Inr \<lparr>feature = f, pathStyle = style x,
                              popupContent =
                                \<lparr>ndviFixed3 = toFixed3 x,
                                 unitLabel = (if falsy u then Str ''n/a'' else u),
                                 datasetNo = datasetIndex + 1\<rparr>\<rparr>)
                | Undefined \<Rightarrow> Inl (TypeError ''Cannot read properties of undefined (reading toFixed)'')
                | Null \<Rightarrow> Inl (TypeError ''Cannot read properties of null (reading toFixed)'')
                | _ \<Rightarrow> Inl (TypeError ''ndviValue.toFixed is not a function''))))"

text \<open>
  Modelled from the spec: \<open>L.geoJSON\<close> belongs to the mapping library. A body is
  either a feature-collection object, whose features are walked in order, or a single
  feature object, taken as a one-element collection; each feature is styled by the
  \<open>style\<close> callback and handed to \<open>onEachFeature\<close>. Geometry is not modelled.
\<close>

definition geoJSON_features :: "jv \<Rightarrow> jv list" where
  "geoJSON_features dataset =
     (case dataset of
        Obj kvs \<Rightarrow>
          (if map_of kvs ''type'' = Some (Str ''FeatureCollection'')
           then (case map_of kvs ''features'' of Some (Arr fs) \<Rightarrow> fs | _ \<Rightarrow> [])
           else [dataset])
      | _ \<Rightarrow> [dataset])"

text \<open>A loop that stops at the first exception.\<close>

fun each :: "('a \<Rightarrow> exn + 'b) \<Rightarrow> 'a list \<Rightarrow> exn + 'b list" where
  "each f [] = Inr []"
| "each f (x # xs) =
     (case f x of
        Inl e \<Rightarrow> Inl e
      | Inr y \<Rightarrow> (case each f xs of Inl e \<Rightarrow> Inl e | Inr ys \<Rightarrow> Inr (y # ys)))"

definition geoJSON :: "nat \<Rightarrow> jv \<Rightarrow> exn + child list" where
  "geoJSON datasetIndex dataset = each (featureLayer datasetIndex) (geoJSON_features dataset)"

text \<open>
  The removal of the previous stress layers: each is taken off the map and out of the
  layer control, then the list is emptied.
\<close>

definition remove_previous :: "state \<Rightarrow> state" where
  "remove_previous s =
     (fold (\<lambda>layer s'. control_removeLayer layer (map_removeLayer layer s')) (stressLayers s) s)
       \<lparr>stressLayers := []\<rparr>"

text \<open>
  The body of \<open>jsonData.forEach\<close> for one dataset. The first component of the result is
  the exception thrown, if any; the state reached by then is kept.
\<close>

definition add_dataset :: "jv \<Rightarrow> nat \<Rightarrow> state \<Rightarrow> exn option \<times> state" where
  "add_dataset dataset datasetIndex s =
     (case get_prop dataset ''type'' of
        Inl e \<Rightarrow> (Some e, s)
      | Inr t \<Rightarrow>
          (case (if t = Str ''FeatureCollection'' then get_prop dataset ''features''
                 else Inr (Arr [dataset])) of
             Inl e \<Rightarrow> (Some e, s)
           | Inr features \<Rightarrow>
               (case get_prop features ''length'' of
                  Inl e \<Rightarrow> (Some e, s)
                | Inr len \<Rightarrow>
                    (let s1 = emit (LogStressDataset (datasetIndex + 1) len) s in
                     case geoJSON datasetIndex dataset of
                       Inl e \<Rightarrow> (Some e, s1)
                     | Inr children \<Rightarrow>
                         (let stressLayer = GeoJSON (nextId s1) children;
                              s2 = s1\<lparr>nextId := Suc (nextId s1)\<rparr>;
                              s3 = (if datasetIndex = 0 then addTo stressLayer s2 else s2);
                              s4 = addOverlay stressLayer
                                     (''Stress Sample '' @ string_of_nat (datasetIndex + 1)) s3
                          in (None, s4\<lparr>stressLayers := stressLayers s4 @ [stressLayer]\<rparr>))))))"

fun forEach_dataset :: "jv list \<Rightarrow> nat \<Rightarrow> state \<Rightarrow> exn option \<times> state" where
  "forEach_dataset [] datasetIndex s = (None, s)"
| "forEach_dataset (dataset # rest) datasetIndex s =
     (case add_dataset dataset datasetIndex s of
        (Some e, s') \<Rightarrow> (Some e, s')
      | (None, s') \<Rightarrow> forEach_dataset rest (Suc datasetIndex) s')"

text \<open>
  The \<open>try\<close> block of \<open>loadStressData\<close> over a list of paths: all fetches are issued,
  then awaited together, then all bodies are parsed together, and only then are layers
  touched.
\<close>

definition loadStressData_try :: "string list \<Rightarrow> env \<Rightarrow> state \<Rightarrow> exn option \<times> state" where
  "loadStressData_try us env s0 =
     (let s1 = setStatus ''Loading stress data...'' s0;
          s2 = fold (\<lambda>u. emit (Fetch u)) us s1
      in case promise_all (map (fetch env) us) of
           Inl e \<Rightarrow> (Some e, s2)
         | Inr responses \<Rightarrow>
             (case promise_all (map json responses) of
                Inl e \<Rightarrow> (Some e, s2)
              | Inr jsonData \<Rightarrow>
                  (case forEach_dataset jsonData 0 (remove_previous s2) of
                     (Some e, s3) \<Rightarrow> (Some e, s3)
                   | (None, s3) \<Rightarrow>
                       (None, setLoading False
                                (setStatus ''Stress data overlaid successfully'' s3)))))"

text \<open>The whole function, with its \<open>catch\<close>.\<close>

definition loadStressDataFrom :: "string list \<Rightarrow> env \<Rightarrow> state \<Rightarrow> state" where
  "loadStressDataFrom us env s =
     (case loadStressData_try us env s of
        (Some e, s') \<Rightarrow>
          setStatus (''Error loading stress data: '' @ message e)
            (emit (ConsoleError ''Error loading stress data:'' e) s')
      | (None, s') \<Rightarrow> s')"

text \<open>\<open>loadStressData\<close> itself runs over its fixed list of paths.\<close>

definition loadStressData :: "env \<Rightarrow> state \<Rightarrow> state" where
  "loadStressData = loadStressDataFrom urls"

section \<open>The raster loader\<close>

definition url :: string where
  "url = ''/optimized_sample.tif''"

text \<open>
  The \<open>try\<close> block of \<open>loadGeoTIFF\<close> up to the call of \<open>loadStressData\<close>.
\<close>

definition loadGeoTIFF_try :: "env \<Rightarrow> state \<Rightarrow> exn option \<times> state" where
  "loadGeoTIFF_try env s0 =
     (let s1 = emit (Fetch url) (setStatus ''Fetching GeoTIFF file...'' s0) in
      case fetch env url of
        Inl e \<Rightarrow> (Some e, s1)
      | Inr response \<Rightarrow>
          if \<not> ok response
          then (Some (Error (''Failed to fetch GeoTIFF: '' @ statusText response)), s1)
          else
            (case arrayBuffer response of
               Inl e \<Rightarrow> (Some e, s1)
             | Inr buf \<Rightarrow>
                 (let s2 = setStatus ''Parsing GeoTIFF data...''
                             (emit (ConsoleLog ''GeoTIFF file loaded, size:'') s1) in
                  case parseGeoraster env buf of
                    Inl e \<Rightarrow> (Some e, s2)
                  | Inr g \<Rightarrow>
                      (let s3 = setStatus ''Creating GeoTIFF layer...''
                                  (emit (ConsoleLog ''GeoRaster parsed:'') s2);
                           layer = GeoRasterLayer (nextId s3) g;
                           s4 = s3\<lparr>nextId := Suc (nextId s3)\<rparr>;
                           s5 = emit (ConsoleLog ''Layer added to map'')
                                  (addOverlay layer ''GeoTIFF Base Layer'' (addTo layer s4))
                       in case layerBounds g of
                            None \<Rightarrow>
                              (None, setStatus ''GeoTIFF loaded, but no valid bounds''
                                       (emit (ConsoleWarn ''Invalid bounds, could not zoom map'') s5))
                          | Some bounds \<Rightarrow>
                              if isValid bounds
                              then (None, setStatus ''GeoTIFF displayed successfully''
                                            (fitBounds bounds s5))
                              else (None, setStatus ''GeoTIFF loaded, but no valid bounds''
                                            (emit (ConsoleWarn ''Invalid bounds, could not zoom map'') s5))))))"

text \<open>
  The whole function: on success of the block above \<open>loadStressData\<close> runs, which
  catches its own exceptions; otherwise the \<open>catch\<close> reports the error.
\<close>

definition loadGeoTIFF :: "env \<Rightarrow> state \<Rightarrow> state" where
  "loadGeoTIFF env s =
     (case loadGeoTIFF_try env s of
        (Some e, s') \<Rightarrow>
          setStatus (''Error: '' @ message e) (emit (ConsoleError ''Error loading GeoTIFF:'' e) s')
      | (None, s') \<Rightarrow> loadStressData env s')"

section \<open>Notions used to state the properties\<close>

text \<open>The clamp of a stress value to \<open>[0, 1]\<close> and the hue of an \<open>hsl\<close> colour.\<close>

definition clamp01 :: "real \<Rightarrow> real" where
  "clamp01 v = min 1 (max 0 v)"

fun hue_of :: "css_color \<Rightarrow> real" where
  "hue_of (Hsl h s l) = h"
| "hue_of _ = 0"

text \<open>A grey of a given intensity at opacity one half, and a pixel value scaled to it.\<close>

definition gray :: "real \<Rightarrow> css_color" where
  "gray i = Rgba (Finite i) (Finite i) (Finite i) (1 / 2)"

definition scaled :: "real \<Rightarrow> real" where
  "scaled x = min 255 (max 0 (x * 255))"

text \<open>
  The events a run adds to the trace: those of the state reached beyond those of the
  state it started in.
\<close>

definition events_since :: "state \<Rightarrow> state \<Rightarrow> event list" where
  "events_since s s' = drop (length (trace s)) (trace s')"

fun is_Fetch :: "event \<Rightarrow> bool" where
  "is_Fetch (Fetch u) = True"
| "is_Fetch _ = False"

fun is_SetLoading :: "event \<Rightarrow> bool" where
  "is_SetLoading (SetLoading b) = True"
| "is_SetLoading _ = False"

text \<open>
  Some fetch of the group rejects, or some body does not parse; and the rejections
  that can reach the \<open>catch\<close>.
\<close>

definition fetch_or_parse_fails :: "string list \<Rightarrow> env \<Rightarrow> bool" where
  "fetch_or_parse_fails us env =
     (\<exists>u \<in> set us. case fetch env u of Inl e \<Rightarrow> True | Inr r \<Rightarrow> isl (json r))"

definition rejections :: "string list \<Rightarrow> env \<Rightarrow> exn list" where
  "rejections us env =
     concat (map (\<lambda>u. case fetch env u of
                         Inl e \<Rightarrow> [e]
                       | Inr r \<Rightarrow> (case json r of Inl e \<Rightarrow> [e] | Inr d \<Rightarrow> [])) us)"

text \<open>
  The log line of a dataset.
\<close>

fun is_Log :: "event \<Rightarrow> bool" where
  "is_Log (LogStressDataset k v) = True"
| "is_Log _ = False"

text \<open>
  The raster fetch rejects, answers with a non-success status, or its body cannot be
  read or decoded.
\<close>

definition raster_fails :: "env \<Rightarrow> bool" where
  "raster_fails env =
     (case fetch env url of
        Inl e \<Rightarrow> True
      | Inr r \<Rightarrow> \<not> ok r \<or> (case arrayBuffer r of Inl e \<Rightarrow> True | Inr buf \<Rightarrow> isl (parseGeoraster env buf)))"

text \<open>
  The bounds the raster layer reports, when they are present and valid.
\<close>

definition valid_bounds :: "georaster \<Rightarrow> latLngBounds option" where
  "valid_bounds g = (case layerBounds g of None \<Rightarrow> None | Some b \<Rightarrow> if isValid b then Some b else None)"

text \<open>
  The same network, with the status and status text of every response replaced.
\<close>

definition with_status :: "(string \<Rightarrow> bool) \<Rightarrow> (string \<Rightarrow> string) \<Rightarrow> env \<Rightarrow> env" where
  "with_status k t env =
     env\<lparr>fetch := (\<lambda>u. case fetch env u of
                          Inl e \<Rightarrow> Inl e
                        | Inr r \<Rightarrow> Inr (r\<lparr>ok := k u, statusText := t u\<rparr>))\<rparr>"

text \<open>
  The bodies that parse, in the order of the paths, and the exception, if any, that
  building the overlays from a list of bodies throws (it does not depend on the state
  the loop starts in, see \<open>forEach_outcome\<close>).
\<close>

definition parsed_bodies :: "string list \<Rightarrow> env \<Rightarrow> jv list" where
  "parsed_bodies us env =
     concat (map (\<lambda>u. case fetch env u of
                         Inl e \<Rightarrow> []
                       | Inr r \<Rightarrow> (case json r of Inl e \<Rightarrow> [] | Inr d \<Rightarrow> [d])) us)"

definition build_exception :: "jv list \<Rightarrow> exn option" where
  "build_exception ds = fst (forEach_dataset ds 0 mount)"

text \<open>A feature collection object.\<close>

definition collection :: "jv list \<Rightarrow> jv" where
  "collection fs = Obj [(''type'', Str ''FeatureCollection''), (''features'', Arr fs)]"

text \<open>
  A single feature object; the one-element collection around it; and the same network
  with every body passed through a function.
\<close>

definition is_feature :: "jv \<Rightarrow> bool" where
  "is_feature d = (case d of Obj kvs \<Rightarrow> map_of kvs ''type'' = Some (Str ''Feature'') | _ \<Rightarrow> False)"

definition as_collection :: "jv \<Rightarrow> jv" where
  "as_collection d = (if is_feature d then collection [d] else d)"

definition with_bodies :: "(jv \<Rightarrow> jv) \<Rightarrow> env \<Rightarrow> env" where
  "with_bodies f env =
     env\<lparr>fetch := (\<lambda>u. case fetch env u of
                          Inl e \<Rightarrow> Inl e
                        | Inr r \<Rightarrow> Inr (r\<lparr>json := (case json r of Inl e \<Rightarrow> Inl e | Inr d \<Rightarrow> Inr (f d))\<rparr>))\<rparr>"

text \<open>
  The parsed bodies of the group, or the rejection that wins.
\<close>

definition bodies :: "string list \<Rightarrow> env \<Rightarrow> exn + jv list" where
  "bodies us env =
     (case promise_all (map (fetch env) us) of
        Inl e \<Rightarrow> Inl e
      | Inr responses \<Rightarrow> promise_all (map json responses))"

text \<open>
  The invariant of the page on its layers: every stamp in use is below the next free
  one, the stress layers are GeoJSON layers, and a layer on the map or in the layer
  control is a GeoJSON layer exactly when it is one of the stress layers. It holds of
  \<open>mount\<close> and is kept by the loaders.
\<close>

definition tracked :: "state \<Rightarrow> bool" where
  "tracked s =
     ((\<forall>l \<in> set (mapLayers s).
         lid l < nextId s \<and> is_geojson l = (lid l \<in> set (map lid (stressLayers s))))
      \<and> (\<forall>e \<in> set (control s).
         lid (fst e) < nextId s \<and> is_geojson (fst e) = (lid (fst e) \<in> set (map lid (stressLayers s))))
      \<and> (\<forall>l \<in> set (stressLayers s). lid l < nextId s \<and> is_geojson l))"

text \<open>
  The vector overlay step succeeds on a network: no fetch rejects, every body parses,
  and building the overlays throws no exception (\<open>try_None_iff\<close>: that is, its
  \<open>try\<close> block ends without an exception, from whatever state).
\<close>

definition stress_succeeds :: "string list \<Rightarrow> env \<Rightarrow> bool" where
  "stress_succeeds us env =
     (\<not> fetch_or_parse_fails us env \<and> build_exception (parsed_bodies us env) = None)"

text \<open>
  The name under which the overlay of dataset \<open>datasetIndex\<close> is registered, and the
  entries of the layer control for a list of layers numbered from \<open>i\<close>.
\<close>

definition overlay_name :: "nat \<Rightarrow> string" where
  "overlay_name datasetIndex = ''Stress Sample '' @ string_of_nat (datasetIndex + 1)"

fun new_entries :: "nat \<Rightarrow> layer list \<Rightarrow> (layer \<times> string \<times> bool) list" where
  "new_entries i [] = []"
| "new_entries i (l # ls) = (l, overlay_name i, True) # new_entries (Suc i) ls"

section \<open>Concrete inputs\<close>

text \<open>A feature with a stress value and a unit.\<close>

definition feat :: "real \<Rightarrow> jv" where
  "feat v = Obj [(''type'', Str ''Feature''),
                 (''properties'', Obj [(''value'', Num v), (''unit'', Str ''NDVI'')])]"

text \<open>
  A successful response with a JSON body and a parsed raster with valid bounds.
\<close>

definition resp :: "jv \<Rightarrow> response" where
  "resp body = \<lparr>ok = True, statusText = ''OK'', arrayBuffer = Inr [73, 73, 42, 0], json = Inr body\<rparr>"

definition raster0 :: georaster where
  "raster0 = \<lparr>noDataValue = Sample (Finite 0),
              layerBounds = Some \<lparr>southWest = Some (0, 0), northEast = Some (1, 1)\<rparr>\<rparr>"

text \<open>
  A network on which everything succeeds: the first stress file is a collection of one
  feature, the second a single feature.
\<close>

definition env_ok :: env where
  "env_ok =
     \<lparr>fetch = (\<lambda>u. if u = ''/stress_sample.json'' then Inr (resp (collection [feat (1 / 5)]))
                    else Inr (resp (feat (1 / 2)))),
      parseGeoraster = (\<lambda>buf. Inr raster0)\<rparr>"

text \<open>
  The second stress file does not parse.
\<close>

definition env_bad_json :: env where
  "env_bad_json =
     \<lparr>fetch = (\<lambda>u. if u = ''/stress_sample.json'' then Inr (resp (collection [feat (1 / 5)]))
                    else Inr ((resp Null)\<lparr>json := Inl (Error ''Unexpected token'')\<rparr>)),
      parseGeoraster = (\<lambda>buf. Inr raster0)\<rparr>"

text \<open>
  Every fetch is answered with status 404 and the body \<open>null\<close>.
\<close>

definition env_404 :: env where
  "env_404 =
     \<lparr>fetch = (\<lambda>u. Inr ((resp Null)\<lparr>ok := False, statusText := ''Not Found''\<rparr>)),
      parseGeoraster = (\<lambda>buf. Inr raster0)\<rparr>"

text \<open>
  The state in which the raster step of \<open>env_ok\<close> hands over to the vector overlay
  step.
\<close>

definition after_raster :: state where
  "after_raster = snd (loadGeoTIFF_try env_ok mount)"

section \<open>Decimal printing\<close>

lemma digit_inj:
  assumes "a < 10" and "b < 10" and "digit a = digit b"
  shows "a = b"
proof -
  from assms(1) have "a \<in> {0, 1, 2, 3, 4, 5, 6, 7, 8, 9}" by auto
  moreover from assms(2) have "b \<in> {0, 1, 2, 3, 4, 5, 6, 7, 8, 9}" by auto
  ultimately show ?thesis using assms(3) by (auto simp: digit_def)
qed

lemma string_of_nat_nonempty: "string_of_nat n \<noteq> []"
  by (induction n rule: string_of_nat.induct) (subst string_of_nat.simps, simp)

declare string_of_nat.simps [simp del]

lemma string_of_nat_inj: "string_of_nat m = string_of_nat n \<Longrightarrow> m = n"
proof (induction m arbitrary: n rule: string_of_nat.induct)
  case (1 m)
  show ?case
  proof (cases "m < 10")
    case True
    then have sm: "string_of_nat m = [digit m]"
      by (simp add: string_of_nat.simps)
    show ?thesis
    proof (cases "n < 10")
      case small: True
      then have "string_of_nat n = [digit n]"
        by (simp add: string_of_nat.simps)
      with sm "1.prems" have "digit m = digit n" by simp
      with True small show ?thesis by (intro digit_inj)
    next
      case big: False
      then have "string_of_nat n = string_of_nat (n div 10) @ [digit (n mod 10)]"
        by (simp add: string_of_nat.simps)
      with sm "1.prems" have "string_of_nat (n div 10) = []" by simp
      then show ?thesis using string_of_nat_nonempty by blast
    qed
  next
    case False
    then have sm: "string_of_nat m = string_of_nat (m div 10) @ [digit (m mod 10)]"
      by (simp add: string_of_nat.simps)
    show ?thesis
    proof (cases "n < 10")
      case small: True
      then have "string_of_nat n = [digit n]"
        by (simp add: string_of_nat.simps)
      with sm "1.prems" have "string_of_nat (m div 10) = []" by simp
      then show ?thesis using string_of_nat_nonempty by blast
    next
      case big: False
      then have "string_of_nat n = string_of_nat (n div 10) @ [digit (n mod 10)]"
        by (simp add: string_of_nat.simps)
      with sm "1.prems" have e1: "string_of_nat (m div 10) = string_of_nat (n div 10)"
        and e2: "digit (m mod 10) = digit (n mod 10)" by simp_all
      from "1.IH" [OF False e1] have d: "m div 10 = n div 10" .
      from e2 have "m mod 10 = n mod 10" by (intro digit_inj) simp_all
      with d show ?thesis by (metis div_mult_mod_eq)
    qed
  qed
qed

lemma overlay_name_inj: "overlay_name i = overlay_name j \<Longrightarrow> i = j"
  using string_of_nat_inj [of "i + 1" "j + 1"] by (simp add: overlay_name_def)

lemma distinct_overlay_names: "distinct (map overlay_name [i ..< j])"
  by (simp add: distinct_map inj_on_def overlay_name_inj)

section \<open>Effects of the basic operations\<close>

lemma emit_fields [simp]:
  "mapLayers (emit e s) = mapLayers s" "viewport (emit e s) = viewport s"
  "control (emit e s) = control s" "stressLayers (emit e s) = stressLayers s"
  "status (emit e s) = status s" "loading (emit e s) = loading s"
  "nextId (emit e s) = nextId s" "trace (emit e s) = trace s @ [e]"
  by (simp_all add: emit_def)

lemma setStatus_fields [simp]:
  "mapLayers (setStatus m s) = mapLayers s" "viewport (setStatus m s) = viewport s"
  "control (setStatus m s) = control s" "stressLayers (setStatus m s) = stressLayers s"
  "status (setStatus m s) = m" "loading (setStatus m s) = loading s"
  "nextId (setStatus m s) = nextId s" "trace (setStatus m s) = trace s @ [SetStatus m]"
  by (simp_all add: setStatus_def)

lemma setLoading_fields [simp]:
  "mapLayers (setLoading b s) = mapLayers s" "viewport (setLoading b s) = viewport s"
  "control (setLoading b s) = control s" "stressLayers (setLoading b s) = stressLayers s"
  "status (setLoading b s) = status s" "loading (setLoading b s) = b"
  "nextId (setLoading b s) = nextId s" "trace (setLoading b s) = trace s @ [SetLoading b]"
  by (simp_all add: setLoading_def)

lemma fold_emit_fields [simp]:
  "mapLayers (fold (\<lambda>u. emit (f u)) us s) = mapLayers s"
  "viewport (fold (\<lambda>u. emit (f u)) us s) = viewport s"
  "control (fold (\<lambda>u. emit (f u)) us s) = control s"
  "stressLayers (fold (\<lambda>u. emit (f u)) us s) = stressLayers s"
  "status (fold (\<lambda>u. emit (f u)) us s) = status s"
  "loading (fold (\<lambda>u. emit (f u)) us s) = loading s"
  "nextId (fold (\<lambda>u. emit (f u)) us s) = nextId s"
  "trace (fold (\<lambda>u. emit (f u)) us s) = trace s @ map f us"
  by (induction us arbitrary: s; simp)+

lemma addTo_fields [simp]:
  "viewport (addTo l s) = viewport s"
  "control (addTo l s) = control s" "stressLayers (addTo l s) = stressLayers s"
  "status (addTo l s) = status s" "loading (addTo l s) = loading s"
  "nextId (addTo l s) = nextId s" "trace (addTo l s) = trace s"
  by (simp_all add: addTo_def)

lemma mapLayers_addTo:
  "mapLayers (addTo l s)
     = (if lid l \<in> lid ` set (mapLayers s) then mapLayers s else mapLayers s @ [l])"
  by (simp add: addTo_def hasLayer_def)

lemma addOverlay_fields [simp]:
  "mapLayers (addOverlay l n s) = mapLayers s" "viewport (addOverlay l n s) = viewport s"
  "control (addOverlay l n s) = control s @ [(l, n, True)]"
  "stressLayers (addOverlay l n s) = stressLayers s"
  "status (addOverlay l n s) = status s" "loading (addOverlay l n s) = loading s"
  "nextId (addOverlay l n s) = nextId s" "trace (addOverlay l n s) = trace s"
  by (simp_all add: addOverlay_def)

lemma map_removeLayer_fields [simp]:
  "mapLayers (map_removeLayer l s) = filter (\<lambda>x. lid x \<noteq> lid l) (mapLayers s)"
  "viewport (map_removeLayer l s) = viewport s"
  "control (map_removeLayer l s) = control s"
  "stressLayers (map_removeLayer l s) = stressLayers s"
  "status (map_removeLayer l s) = status s" "loading (map_removeLayer l s) = loading s"
  "nextId (map_removeLayer l s) = nextId s" "trace (map_removeLayer l s) = trace s"
  by (simp_all add: map_removeLayer_def)

lemma control_removeLayer_fields [simp]:
  "mapLayers (control_removeLayer l s) = mapLayers s"
  "viewport (control_removeLayer l s) = viewport s"
  "control (control_removeLayer l s) = filter (\<lambda>e. lid (fst e) \<noteq> lid l) (control s)"
  "stressLayers (control_removeLayer l s) = stressLayers s"
  "status (control_removeLayer l s) = status s" "loading (control_removeLayer l s) = loading s"
  "nextId (control_removeLayer l s) = nextId s" "trace (control_removeLayer l s) = trace s"
  by (simp_all add: control_removeLayer_def)

lemma fitBounds_fields [simp]:
  "mapLayers (fitBounds b s) = mapLayers s" "viewport (fitBounds b s) = FitBounds b"
  "control (fitBounds b s) = control s" "stressLayers (fitBounds b s) = stressLayers s"
  "status (fitBounds b s) = status s" "loading (fitBounds b s) = loading s"
  "nextId (fitBounds b s) = nextId s" "trace (fitBounds b s) = trace s"
  by (simp_all add: fitBounds_def)

lemma fold_remove_fields:
  "mapLayers (fold (\<lambda>l s'. control_removeLayer l (map_removeLayer l s')) ls s)
     = filter (\<lambda>x. lid x \<notin> lid ` set ls) (mapLayers s)"
  "control (fold (\<lambda>l s'. control_removeLayer l (map_removeLayer l s')) ls s)
     = filter (\<lambda>e. lid (fst e) \<notin> lid ` set ls) (control s)"
  "viewport (fold (\<lambda>l s'. control_removeLayer l (map_removeLayer l s')) ls s) = viewport s"
  "status (fold (\<lambda>l s'. control_removeLayer l (map_removeLayer l s')) ls s) = status s"
  "loading (fold (\<lambda>l s'. control_removeLayer l (map_removeLayer l s')) ls s) = loading s"
  "nextId (fold (\<lambda>l s'. control_removeLayer l (map_removeLayer l s')) ls s) = nextId s"
  "trace (fold (\<lambda>l s'. control_removeLayer l (map_removeLayer l s')) ls s) = trace s"
  by (induction ls arbitrary: s; simp; metis)+

lemma remove_previous_fields [simp]:
  "mapLayers (remove_previous s) = filter (\<lambda>x. lid x \<notin> lid ` set (stressLayers s)) (mapLayers s)"
  "control (remove_previous s) = filter (\<lambda>e. lid (fst e) \<notin> lid ` set (stressLayers s)) (control s)"
  "stressLayers (remove_previous s) = []"
  "viewport (remove_previous s) = viewport s" "status (remove_previous s) = status s"
  "loading (remove_previous s) = loading s" "nextId (remove_previous s) = nextId s"
  "trace (remove_previous s) = trace s"
  by (simp_all add: remove_previous_def fold_remove_fields)

lemma events_since_append [simp]: "trace s' = trace s @ evs \<Longrightarrow> events_since s s' = evs"
  by (simp add: events_since_def)

section \<open>Unfolding the steps on concrete inputs\<close>

lemmas step_defs = loadGeoTIFF_try_def loadStressData_try_def add_dataset_def geoJSON_def
  geoJSON_features_def featureLayer_def remove_previous_def addTo_def hasLayer_def
  addOverlay_def map_removeLayer_def control_removeLayer_def fitBounds_def emit_def
  setStatus_def setLoading_def Let_def

lemmas input_defs = env_ok_def env_404_def resp_def raster0_def collection_def feat_def
  urls_def url_def mount_def isValid_def

section \<open>Styling of features\<close>

lemma featureLayer_style:
  assumes "featureLayer i f = Inr c"
  shows "\<exists>props x. get_prop f ''properties'' = Inr props
           \<and> get_prop props ''value'' = Inr (Num x) \<and> pathStyle c = style x"
  using assms
  by (auto simp: featureLayer_def split: sum.splits jv.splits)

text \<open>
  C1. Whatever the stress value \<open>v\<close> of a feature, the fill colour is the \<open>hsl\<close> colour
  whose hue is \<open>v\<close> clamped to \<open>[0, 1]\<close> times 120, the fill opacity is 0.7 and the stroke
  weight 0.5; the stroke is red when \<open>v \<le> 0.3\<close> (which is the same for \<open>v\<close> and for
  its clamp) and green otherwise; the hue does not decrease when \<open>v\<close> grows. Every
  feature the loader turns into a child of an overlay has a numeric value and carries
  this style of it.
\<close>

theorem style_rule:
  "fillColor (style v) = Hsl (clamp01 v * 120) 100 50
   \<and> fillOpacity (style v) = 7 / 10
   \<and> weight (style v) = 1 / 2
   \<and> color (style v) = (if v \<le> 3 / 10 then Named ''red'' else Named ''green'')
   \<and> (v \<le> 3 / 10) = (clamp01 v \<le> 3 / 10)
   \<and> (v \<le> w \<longrightarrow> hue_of (fillColor (style v)) \<le> hue_of (fillColor (style w)))
   \<and> (featureLayer i f = Inr c \<longrightarrow>
        (\<exists>props x. get_prop f ''properties'' = Inr props
           \<and> get_prop props ''value'' = Inr (Num x) \<and> pathStyle c = style x))"
proof -
  have "fillColor (style v) = Hsl (clamp01 v * 120) 100 50"
    by (simp add: style_def clamp01_def Let_def)
  moreover have "fillOpacity (style v) = 7 / 10" "weight (style v) = 1 / 2"
    by (simp_all add: style_def Let_def)
  moreover have "color (style v) = (if v \<le> 3 / 10 then Named ''red'' else Named ''green'')"
    by (simp add: style_def Let_def)
  moreover have "(v \<le> 3 / 10) = (clamp01 v \<le> 3 / 10)"
    by (auto simp: clamp01_def min_def max_def)
  moreover have "v \<le> w \<longrightarrow> hue_of (fillColor (style v)) \<le> hue_of (fillColor (style w))"
    by (auto simp: style_def Let_def min_def max_def)
  moreover have "featureLayer i f = Inr c \<longrightarrow>
        (\<exists>props x. get_prop f ''properties'' = Inr props
           \<and> get_prop props ''value'' = Inr (Num x) \<and> pathStyle c = style x)"
    using featureLayer_style by blast
  ultimately show ?thesis by blast
qed

theorem style_rule_witness:
  "(1 / 4 :: real) \<le> 1 / 2
   \<and> hue_of (fillColor (style (1 / 4))) \<le> hue_of (fillColor (style (1 / 2)))
   \<and> fillColor (style (1 / 4)) = Hsl 30 100 50
   \<and> color (style (1 / 4)) = Named ''red''
   \<and> featureLayer 0 (feat (1 / 4)) =
       Inr \<lparr>feature = feat (1 / 4), pathStyle = style (1 / 4),
            popupContent = \<lparr>ndviFixed3 = 250, unitLabel = Str ''NDVI'', datasetNo = 1\<rparr>\<rparr>
   \<and> (\<exists>props x. get_prop (feat (1 / 4)) ''properties'' = Inr props
         \<and> get_prop props ''value'' = Inr (Num x) \<and> style (1 / 4) = style x)"
proof -
  have b: "featureLayer 0 (feat (1 / 4)) =
       Inr \<lparr>feature = feat (1 / 4), pathStyle = style (1 / 4),
            popupContent = \<lparr>ndviFixed3 = 250, unitLabel = Str ''NDVI'', datasetNo = 1\<rparr>\<rparr>"
    by (simp add: featureLayer_def feat_def toFixed3_def)
  show ?thesis
    using b style_rule [of "1 / 4" "1 / 2" 0 "feat (1 / 4)"
        "\<lparr>feature = feat (1 / 4), pathStyle = style (1 / 4),
            popupContent = \<lparr>ndviFixed3 = 250, unitLabel = Str ''NDVI'', datasetNo = 1\<rparr>\<rparr>"]
    by (simp add: clamp01_def style_def)
qed

section \<open>Colouring of raster pixels\<close>

text \<open>
  C2. The guard of the colour function is meant to leave no-data pixels undrawn and its
  clamp to keep the intensity in \<open>[0, 255]\<close>; both miss NaN. A NaN first band is drawn,
  with NaN intensities, when NaN is the raster's no-data value (\<open>===\<close> never holds of
  NaN) and when it is not (\<open>Math.min\<close> and \<open>Math.max\<close> pass NaN through): the result
  is the colour \<open>rgba(NaN, NaN, NaN, 0.5)\<close>, neither transparent nor a grey with an
  intensity in \<open>[0, 255]\<close>.
\<close>

theorem pixel_nan_drawn:
  "pixelValuesToColorFn (Sample NaN) [Sample NaN] = Some (Rgba NaN NaN NaN (1 / 2))
   \<and> pixelValuesToColorFn (Sample (Finite 0)) [Sample NaN] = Some (Rgba NaN NaN NaN (1 / 2))"
  by (simp add: pixelValuesToColorFn_def)

text \<open>
  Away from NaN the function does what is asked of it: a first band that is \<open>===\<close> the
  no-data value or is absent (\<open>null\<close>, \<open>undefined\<close>, or an empty array of values) is
  not drawn, and any other first band is a number \<open>x\<close> drawn in the grey of intensity
  \<open>min 255 (max 0 (255 x))\<close>, which lies in \<open>[0, 255]\<close>.
\<close>

lemma pixel_color_rule:
  assumes "first_band values \<noteq> Sample NaN"
  shows "(strict_eq (first_band values) nd \<or> first_band values = NoSample
            \<or> first_band values = NullSample
          \<longrightarrow> pixelValuesToColorFn nd values = None)
       \<and> (\<not> (strict_eq (first_band values) nd \<or> first_band values = NoSample
               \<or> first_band values = NullSample)
          \<longrightarrow> (\<exists>x. first_band values = Sample (Finite x)
                 \<and> pixelValuesToColorFn nd values = Some (gray (scaled x))
                 \<and> 0 \<le> scaled x \<and> scaled x \<le> 255))"
proof (cases "first_band values")
  case NoSample
  then show ?thesis by (simp add: pixelValuesToColorFn_def)
next
  case NullSample
  then show ?thesis by (simp add: pixelValuesToColorFn_def)
next
  case (Sample n)
  with assms obtain x where "n = Finite x" by (cases n) auto
  with Sample show ?thesis
    by (simp add: pixelValuesToColorFn_def gray_def scaled_def Let_def)
qed

lemma pixel_color_rule_on_inputs:
  "first_band [Sample (Finite (1 / 2))] \<noteq> Sample NaN
   \<and> pixelValuesToColorFn (Sample (Finite 0)) [Sample (Finite (1 / 2))] = Some (gray (255 / 2))
   \<and> first_band [Sample (Finite 0)] \<noteq> Sample NaN
   \<and> pixelValuesToColorFn (Sample (Finite 0)) [Sample (Finite 0)] = None
   \<and> first_band [] \<noteq> Sample NaN
   \<and> pixelValuesToColorFn (Sample (Finite 0)) [] = None"
  using pixel_color_rule [of "[Sample (Finite (1 / 2))]" "Sample (Finite 0)"]
    pixel_color_rule [of "[Sample (Finite 0)]" "Sample (Finite 0)"]
    pixel_color_rule [of "[]" "Sample (Finite 0)"]
  by (simp add: pixelValuesToColorFn_def gray_def Let_def)

section \<open>The awaited group of fetches and bodies\<close>

lemma promise_all_Inl:
  "promise_all ps = Inl e \<Longrightarrow> Inl e \<in> set ps"
  by (induction ps rule: promise_all.induct) (auto split: sum.splits)

lemma promise_all_Inr:
  "promise_all ps = Inr xs \<Longrightarrow> ps = map Inr xs"
  by (induction ps arbitrary: xs rule: promise_all.induct) (auto split: sum.splits)

lemma promise_all_map_Inr [simp]: "promise_all (map Inr xs) = Inr xs"
  by (induction xs) auto

lemma promise_all_Cons_Inr:
  "promise_all (p # ps) = Inr xs \<Longrightarrow>
     \<exists>x xs'. p = Inr x \<and> promise_all ps = Inr xs' \<and> xs = x # xs'"
  by (cases p; cases "promise_all ps") auto

lemma promise_all_rel:
  assumes "list_all2 (rel_sum (=) R) ps qs"
  shows "rel_sum (=) (list_all2 R) (promise_all ps) (promise_all qs)"
  using assms
proof (induction rule: list_all2_induct)
  case Nil
  show ?case by simp
next
  case (Cons p ps q qs)
  then show ?case
    by (cases p; cases q; cases "promise_all ps"; cases "promise_all qs") auto
qed

lemma promise_all_map_sum:
  "promise_all (map (map_sum id f) ps) = map_sum id (map f) (promise_all ps)"
  by (induction ps rule: promise_all.induct) (auto split: sum.splits)

lemma try_via_bodies:
  "loadStressData_try us env s0 =
     (let s2 = fold (\<lambda>u. emit (Fetch u)) us (setStatus ''Loading stress data...'' s0)
      in case bodies us env of
           Inl e \<Rightarrow> (Some e, s2)
         | Inr jsonData \<Rightarrow>
             (case forEach_dataset jsonData 0 (remove_previous s2) of
                (Some e, s3) \<Rightarrow> (Some e, s3)
              | (None, s3) \<Rightarrow>
                  (None, setLoading False (setStatus ''Stress data overlaid successfully'' s3))))"
  by (simp add: loadStressData_try_def bodies_def Let_def split: sum.splits)

lemma bodies_Inr_iff:
  "(\<not> fetch_or_parse_fails us env) = (bodies us env = Inr (parsed_bodies us env))"
proof (induction us)
  case Nil
  show ?case by (simp add: fetch_or_parse_fails_def bodies_def parsed_bodies_def)
next
  case (Cons u us)
  show ?case
  proof (cases "fetch env u")
    case (Inl e)
    then show ?thesis
      by (simp add: fetch_or_parse_fails_def bodies_def)
  next
    case (Inr r)
    show ?thesis
    proof (cases "promise_all (map (fetch env) us)")
      case (Inl e)
      with Cons have "fetch_or_parse_fails us env"
        by (simp add: bodies_def)
      with Inl Inr show ?thesis
        by (auto simp: fetch_or_parse_fails_def bodies_def)
    next
      case rs: (Inr rs)
      show ?thesis
      proof (cases "json r")
        case (Inl e)
        with Inr rs show ?thesis
          by (auto simp: fetch_or_parse_fails_def bodies_def)
      next
        case d: (Inr d)
        have "fetch_or_parse_fails (u # us) env = fetch_or_parse_fails us env"
          using Inr d by (simp add: fetch_or_parse_fails_def)
        moreover have "(bodies (u # us) env = Inr (parsed_bodies (u # us) env))
                       = (bodies us env = Inr (parsed_bodies us env))"
          using Inr d rs
          by (auto simp: bodies_def parsed_bodies_def split: sum.splits)
        ultimately show ?thesis using Cons by simp
      qed
    qed
  qed
qed

lemma bodies_Inl_fails: "bodies us env = Inl e \<Longrightarrow> fetch_or_parse_fails us env"
  using bodies_Inr_iff [of us env] by auto

lemma bodies_Inr_parsed: "bodies us env = Inr ds \<Longrightarrow> ds = parsed_bodies us env"
proof (induction us arbitrary: ds)
  case Nil
  then show ?case by (simp add: bodies_def parsed_bodies_def)
next
  case (Cons u us)
  from Cons.prems obtain x2 where
    x2: "promise_all (fetch env u # map (fetch env) us) = Inr x2"
    and j: "promise_all (map json x2) = Inr ds"
    by (auto simp: bodies_def split: sum.splits)
  from x2 obtain r rs where
    f: "fetch env u = Inr r" and rs: "promise_all (map (fetch env) us) = Inr rs"
    and c: "x2 = r # rs"
    by (auto dest: promise_all_Cons_Inr)
  from j c obtain d ds' where
    d: "json r = Inr d" and ds': "promise_all (map json rs) = Inr ds'" and e: "ds = d # ds'"
    by (auto dest: promise_all_Cons_Inr)
  from rs ds' have "bodies us env = Inr ds'" by (simp add: bodies_def)
  then have "ds' = parsed_bodies us env" by (rule Cons.IH)
  with f d e show ?case by (simp add: parsed_bodies_def)
qed

lemma bodies_Inr_ok: "bodies us env = Inr ds \<Longrightarrow> \<not> fetch_or_parse_fails us env"
  using bodies_Inr_parsed [of us env ds] bodies_Inr_iff [of us env] by simp

lemma bodies_length: "bodies us env = Inr ds \<Longrightarrow> length ds = length us"
proof -
  assume "bodies us env = Inr ds"
  then obtain rs where a: "promise_all (map (fetch env) us) = Inr rs"
    and b: "promise_all (map json rs) = Inr ds"
    by (auto simp: bodies_def split: sum.splits)
  from a have "map (fetch env) us = map Inr rs" by (rule promise_all_Inr)
  then have "length us = length rs" by (metis length_map)
  moreover from b have "map json rs = map Inr ds" by (rule promise_all_Inr)
  then have "length rs = length ds" by (metis length_map)
  ultimately show ?thesis by simp
qed

section \<open>What the vector overlay step leaves alone\<close>

lemma add_dataset_frame:
  "viewport (snd (add_dataset d i s)) = viewport s"
  "status (snd (add_dataset d i s)) = status s"
  "loading (snd (add_dataset d i s)) = loading s"
  "\<exists>evs. trace (snd (add_dataset d i s)) = trace s @ evs \<and> (\<forall>e \<in> set evs. is_Log e)"
  by (auto simp: add_dataset_def Let_def split: sum.splits)

lemma forEach_dataset_frame:
  "viewport (snd (forEach_dataset ds i s)) = viewport s
   \<and> status (snd (forEach_dataset ds i s)) = status s
   \<and> loading (snd (forEach_dataset ds i s)) = loading s
   \<and> (\<exists>evs. trace (snd (forEach_dataset ds i s)) = trace s @ evs \<and> (\<forall>e \<in> set evs. is_Log e))"
proof (induction ds arbitrary: i s)
  case Nil
  show ?case by simp
next
  case (Cons d ds)
  obtain r s1 where a: "add_dataset d i s = (r, s1)" by (cases "add_dataset d i s")
  from add_dataset_frame [of d i s] a obtain evs where
    f: "viewport s1 = viewport s" "status s1 = status s" "loading s1 = loading s"
       "trace s1 = trace s @ evs" "\<forall>e \<in> set evs. is_Log e" by auto
  show ?case
  proof (cases r)
    case (Some e)
    with a f show ?thesis by auto
  next
    case None
    from Cons.IH [of "Suc i" s1] obtain evs' where
      "viewport (snd (forEach_dataset ds (Suc i) s1)) = viewport s1"
      "status (snd (forEach_dataset ds (Suc i) s1)) = status s1"
      "loading (snd (forEach_dataset ds (Suc i) s1)) = loading s1"
      "trace (snd (forEach_dataset ds (Suc i) s1)) = trace s1 @ evs'" "\<forall>e \<in> set evs'. is_Log e"
      by auto
    with a f None show ?thesis by auto
  qed
qed

lemma logs_no_SetLoading: "\<forall>e \<in> set evs. is_Log e \<Longrightarrow> filter is_SetLoading evs = []"
  by (induction evs) (auto elim: is_Log.elims)

lemma logs_no_Fetch: "\<forall>e \<in> set evs. is_Log e \<Longrightarrow> filter is_Fetch evs = []"
  by (induction evs) (auto elim: is_Log.elims)

lemma filter_SetLoading_Fetch [simp]: "filter is_SetLoading (map Fetch us) = []"
  by (induction us) auto

lemma add_dataset_outcome:
  "fst (add_dataset d i s) = fst (add_dataset d i s')"
  by (simp add: add_dataset_def Let_def split: sum.splits)

lemma forEach_outcome:
  "fst (forEach_dataset ds i s) = fst (forEach_dataset ds i s')"
proof (induction ds arbitrary: i s s')
  case Nil
  show ?case by simp
next
  case (Cons d ds)
  obtain r s1 where a: "add_dataset d i s = (r, s1)" by (cases "add_dataset d i s")
  obtain r' s1' where a': "add_dataset d i s' = (r', s1')" by (cases "add_dataset d i s'")
  from add_dataset_outcome [of d i s s'] a a' have "r' = r" by simp
  with a a' Cons.IH [of "Suc i" s1 s1'] show ?case
    by (cases r) simp_all
qed

lemma stress_try_frame:
  "viewport (snd (loadStressData_try us env s)) = viewport s
   \<and> (\<exists>evs. trace (snd (loadStressData_try us env s)) = trace s @ evs
         \<and> filter is_SetLoading evs
             = (if fst (loadStressData_try us env s) = None then [SetLoading False] else []))
   \<and> (fst (loadStressData_try us env s) = None \<longrightarrow>
         loading (snd (loadStressData_try us env s)) = False
         \<and> status (snd (loadStressData_try us env s)) = ''Stress data overlaid successfully'')"
proof -
  define s2 where "s2 = fold (\<lambda>u. emit (Fetch u)) us (setStatus ''Loading stress data...'' s)"
  have t2: "trace s2 = trace s @ SetStatus ''Loading stress data...'' # map Fetch us"
    and v2: "viewport s2 = viewport s"
    by (simp_all add: s2_def)
  show ?thesis
  proof (cases "promise_all (map (fetch env) us)")
    case (Inl e)
    then have "loadStressData_try us env s = (Some e, s2)"
      by (simp add: loadStressData_try_def s2_def)
    with t2 v2 show ?thesis by simp
  next
    case (Inr rs)
    show ?thesis
    proof (cases "promise_all (map json rs)")
      case (Inl e)
      with Inr have "loadStressData_try us env s = (Some e, s2)"
        by (simp add: loadStressData_try_def s2_def)
      with t2 v2 show ?thesis by simp
    next
      case ds: (Inr ds)
      obtain r s3 where f: "forEach_dataset ds 0 (remove_previous s2) = (r, s3)"
        by (cases "forEach_dataset ds 0 (remove_previous s2)")
      from forEach_dataset_frame [of ds 0 "remove_previous s2"] f obtain evs where
        v3: "viewport s3 = viewport s" and t3: "trace s3 = trace s2 @ evs"
        and l: "\<forall>e \<in> set evs. is_Log e"
        using v2 by auto
      from l have n: "filter is_SetLoading evs = []" by (rule logs_no_SetLoading)
      show ?thesis
      proof (cases r)
        case None
        with Inr ds f have "loadStressData_try us env s
            = (None, setLoading False (setStatus ''Stress data overlaid successfully'' s3))"
          by (simp add: loadStressData_try_def s2_def)
        with v3 t3 t2 n show ?thesis by simp
      next
        case (Some e)
        with Inr ds f have "loadStressData_try us env s = (Some e, s3)"
          by (simp add: loadStressData_try_def s2_def)
        with v3 t3 t2 n show ?thesis by simp
      qed
    qed
  qed
qed

lemma stress_frame:
  "viewport (loadStressDataFrom us env s) = viewport s"
  "\<exists>evs. trace (loadStressDataFrom us env s) = trace s @ evs
         \<and> filter is_SetLoading evs
             = (if fst (loadStressData_try us env s) = None then [SetLoading False] else [])"
proof -
  obtain r s1 where t: "loadStressData_try us env s = (r, s1)"
    by (cases "loadStressData_try us env s")
  from stress_try_frame [of us env s] t obtain evs where
    v: "viewport s1 = viewport s" and tr: "trace s1 = trace s @ evs"
    and n: "filter is_SetLoading evs = (if r = None then [SetLoading False] else [])"
    by auto
  from t v show "viewport (loadStressDataFrom us env s) = viewport s"
    by (cases r) (simp_all add: loadStressDataFrom_def)
  from t tr n show "\<exists>evs. trace (loadStressDataFrom us env s) = trace s @ evs
         \<and> filter is_SetLoading evs
             = (if fst (loadStressData_try us env s) = None then [SetLoading False] else [])"
    by (cases r) (simp_all add: loadStressDataFrom_def)
qed

lemma stress_success:
  assumes "fst (loadStressData_try us env s) = None"
  shows "loadStressDataFrom us env s = snd (loadStressData_try us env s)"
    and "loading (loadStressDataFrom us env s) = False"
    and "status (loadStressDataFrom us env s) = ''Stress data overlaid successfully''"
proof -
  obtain s1 where t: "loadStressData_try us env s = (None, s1)"
    using assms by (cases "loadStressData_try us env s") auto
  then show "loadStressDataFrom us env s = snd (loadStressData_try us env s)"
    by (simp add: loadStressDataFrom_def)
  with stress_try_frame [of us env s] assms
  show "loading (loadStressDataFrom us env s) = False"
    and "status (loadStressDataFrom us env s) = ''Stress data overlaid successfully''"
    by simp_all
qed

lemma success_status_iff:
  "(status (loadStressDataFrom us env s) = ''Stress data overlaid successfully'')
     = (\<not> fetch_or_parse_fails us env \<and> build_exception (parsed_bodies us env) = None)"
proof (cases "bodies us env")
  case (Inl e)
  then have "fetch_or_parse_fails us env" by (rule bodies_Inl_fails)
  moreover from Inl have "status (loadStressDataFrom us env s)
      = ''Error loading stress data: '' @ message e"
    by (simp add: loadStressDataFrom_def try_via_bodies)
  ultimately show ?thesis by simp
next
  case (Inr ds)
  then have ok: "\<not> fetch_or_parse_fails us env" and ds: "ds = parsed_bodies us env"
    by (rule bodies_Inr_ok, rule bodies_Inr_parsed)
  define s2 where "s2 = fold (\<lambda>u. emit (Fetch u)) us (setStatus ''Loading stress data...'' s)"
  obtain r s3 where f: "forEach_dataset ds 0 (remove_previous s2) = (r, s3)"
    by (cases "forEach_dataset ds 0 (remove_previous s2)")
  from forEach_outcome [of ds 0 "remove_previous s2" mount] f
  have b: "build_exception ds = r" by (simp add: build_exception_def)
  show ?thesis
  proof (cases r)
    case None
    with Inr f have "status (loadStressDataFrom us env s) = ''Stress data overlaid successfully''"
      by (simp add: loadStressDataFrom_def try_via_bodies s2_def)
    with ok ds b None show ?thesis by simp
  next
    case (Some e)
    with Inr f have "status (loadStressDataFrom us env s)
        = ''Error loading stress data: '' @ message e"
      by (simp add: loadStressDataFrom_def try_via_bodies s2_def)
    with ds b Some show ?thesis by simp
  qed
qed

lemma try_None_iff:
  "(fst (loadStressData_try us env s) = None) = stress_succeeds us env"
proof -
  have "(fst (loadStressData_try us env s) = None)
      = (status (loadStressDataFrom us env s) = ''Stress data overlaid successfully'')"
  proof (cases "fst (loadStressData_try us env s)")
    case None
    then show ?thesis using stress_success(3) [of us env s] by simp
  next
    case (Some e)
    then obtain s1 where "loadStressData_try us env s = (Some e, s1)"
      by (cases "loadStressData_try us env s") auto
    then show ?thesis by (simp add: loadStressDataFrom_def)
  qed
  then show ?thesis by (simp add: success_status_iff stress_succeeds_def)
qed

lemma env_ok_succeeds: "stress_succeeds urls env_ok"
proof -
  have a: "\<not> fetch_or_parse_fails urls env_ok"
    by (simp add: fetch_or_parse_fails_def input_defs)
  have p: "parsed_bodies urls env_ok = [collection [feat (1 / 5)], feat (1 / 2)]"
    by (simp add: parsed_bodies_def env_ok_def resp_def urls_def)
  have b: "build_exception (parsed_bodies urls env_ok) = None"
    unfolding p by (simp add: build_exception_def step_defs input_defs)
  from a b show ?thesis by (simp add: stress_succeeds_def)
qed

section \<open>Failure of the vector overlay step\<close>

lemma rejections_fetch:
  "u \<in> set us \<Longrightarrow> fetch env u = Inl e \<Longrightarrow> e \<in> set (rejections us env)"
  by (auto simp: rejections_def intro!: bexI [of _ u])

lemma rejections_json:
  "u \<in> set us \<Longrightarrow> fetch env u = Inr r \<Longrightarrow> json r = Inl e \<Longrightarrow> e \<in> set (rejections us env)"
  by (auto simp: rejections_def intro!: bexI [of _ u])

lemma stress_try_fails:
  assumes "fetch_or_parse_fails us env"
  shows "\<exists>e \<in> set (rejections us env). loadStressData_try us env s =
     (Some e, fold (\<lambda>u. emit (Fetch u)) us (setStatus ''Loading stress data...'' s))"
proof (cases "promise_all (map (fetch env) us)")
  case (Inl e)
  then have "Inl e \<in> set (map (fetch env) us)" by (rule promise_all_Inl)
  then have "e \<in> set (rejections us env)"
    using rejections_fetch by fastforce
  with Inl show ?thesis by (auto simp: loadStressData_try_def Let_def)
next
  case (Inr rs)
  then have rs: "map (fetch env) us = map Inr rs" by (rule promise_all_Inr)
  from assms obtain u where u: "u \<in> set us"
    and f: "case fetch env u of Inl e \<Rightarrow> True | Inr r \<Rightarrow> isl (json r)"
    by (auto simp: fetch_or_parse_fails_def)
  from rs u obtain r where r: "fetch env u = Inr r" "r \<in> set rs"
    by (metis (no_types, lifting) image_iff list.set_map)
  with f have "isl (json r)" by simp
  then obtain e' where "json r = Inl e'" by (cases "json r") auto
  with r have "Inl e' \<in> set (map json rs)" by force
  then have "promise_all (map json rs) \<noteq> Inr xs" for xs
    using promise_all_Inr by fastforce
  then obtain e where e: "promise_all (map json rs) = Inl e"
    by (cases "promise_all (map json rs)") auto
  then have "Inl e \<in> set (map json rs)" by (rule promise_all_Inl)
  then obtain r' where r': "r' \<in> set rs" "json r' = Inl e" by auto
  with rs obtain u' where "u' \<in> set us" "fetch env u' = Inr r'"
    by (metis (no_types, lifting) image_iff list.set_map)
  with r' have "e \<in> set (rejections us env)"
    using rejections_json by blast
  with Inr e show ?thesis by (auto simp: loadStressData_try_def Let_def)
qed

text \<open>
  C3. If a fetch of the group rejects or a body does not parse, the vector overlay step
  leaves the layers of the map, the entries of the layer control, the list of stress
  layers, the viewport and the loading flag as they were (so a raster layer added before
  stays on the map), and the status is the error status with the message of one of the
  rejections.
\<close>

theorem stress_failure_changes_no_layer:
  assumes "fetch_or_parse_fails us env"
  shows "mapLayers (loadStressDataFrom us env s) = mapLayers s
       \<and> control (loadStressDataFrom us env s) = control s
       \<and> stressLayers (loadStressDataFrom us env s) = stressLayers s
       \<and> nextId (loadStressDataFrom us env s) = nextId s
       \<and> viewport (loadStressDataFrom us env s) = viewport s
       \<and> loading (loadStressDataFrom us env s) = loading s
       \<and> (\<exists>e \<in> set (rejections us env).
             status (loadStressDataFrom us env s) = ''Error loading stress data: '' @ message e)"
proof -
  from stress_try_fails [OF assms, of s] obtain e where
    e: "e \<in> set (rejections us env)"
    and t: "loadStressData_try us env s =
      (Some e, fold (\<lambda>u. emit (Fetch u)) us (setStatus ''Loading stress data...'' s))"
    by blast
  from t have "mapLayers (loadStressDataFrom us env s) = mapLayers s"
    "control (loadStressDataFrom us env s) = control s"
    "stressLayers (loadStressDataFrom us env s) = stressLayers s"
    "nextId (loadStressDataFrom us env s) = nextId s"
    "viewport (loadStressDataFrom us env s) = viewport s"
    "loading (loadStressDataFrom us env s) = loading s"
    "status (loadStressDataFrom us env s) = ''Error loading stress data: '' @ message e"
    by (simp_all add: loadStressDataFrom_def)
  with e show ?thesis by blast
qed

theorem stress_failure_changes_no_layer_witness:
  "fetch_or_parse_fails urls env_bad_json
   \<and> mapLayers (loadStressData env_bad_json after_raster)
       = [TileLayer 0, GeoRasterLayer 1 raster0]
   \<and> control (loadStressData env_bad_json after_raster) = control after_raster
   \<and> stressLayers (loadStressData env_bad_json after_raster) = []
   \<and> status (loadStressData env_bad_json after_raster)
       = ''Error loading stress data: Unexpected token''"
proof -
  have h: "fetch_or_parse_fails urls env_bad_json"
    by (simp add: fetch_or_parse_fails_def urls_def env_bad_json_def resp_def)
  have r: "rejections urls env_bad_json = [Error ''Unexpected token'']"
    by (simp add: rejections_def urls_def env_bad_json_def resp_def)
  have m: "mapLayers after_raster = [TileLayer 0, GeoRasterLayer 1 raster0]"
    "stressLayers after_raster = []"
    by (simp_all add: after_raster_def step_defs input_defs)
  show ?thesis
    using h m stress_failure_changes_no_layer [OF h, of after_raster]
    by (simp add: r loadStressData_def)
qed

section \<open>The raster step\<close>

lemma raster_try_failure:
  assumes "raster_fails env"
  shows "\<exists>e s1 evs. loadGeoTIFF_try env s = (Some e, s1)
     \<and> mapLayers s1 = mapLayers s \<and> control s1 = control s \<and> stressLayers s1 = stressLayers s
     \<and> viewport s1 = viewport s \<and> loading s1 = loading s \<and> nextId s1 = nextId s
     \<and> trace s1 = trace s @ evs \<and> filter is_Fetch evs = [Fetch url]
     \<and> SetStatus ''Loading stress data...'' \<notin> set evs
     \<and> (\<forall>e'. fetch env url = Inl e' \<longrightarrow> e = e')
     \<and> (\<forall>r. fetch env url = Inr r \<and> \<not> ok r \<longrightarrow> e = Error (''Failed to fetch GeoTIFF: '' @ statusText r))
     \<and> (\<forall>r e'. fetch env url = Inr r \<and> ok r \<and> arrayBuffer r = Inl e' \<longrightarrow> e = e')
     \<and> (\<forall>r buf e'. fetch env url = Inr r \<and> ok r \<and> arrayBuffer r = Inr buf
            \<and> parseGeoraster env buf = Inl e' \<longrightarrow> e = e')"
  using assms
  by (auto simp: loadGeoTIFF_try_def raster_fails_def Let_def split: sum.splits)

text \<open>
  C4. If the raster fetch rejects, answers with a non-success status, or its body cannot
  be read or decoded, the run of \<open>loadGeoTIFF\<close> fetches the raster path once and
  nothing else, never sets the status of the vector overlay step, leaves layers and the
  loading flag alone, and ends with the status \<open>Error: \<close> followed by the message of
  the failure; for a non-success response that message is
  \<open>Failed to fetch GeoTIFF: \<close> followed by the status text.
\<close>

theorem raster_failure_stops:
  assumes "raster_fails env"
  shows "filter is_Fetch (events_since s (loadGeoTIFF env s)) = [Fetch url]
       \<and> (\<forall>u \<in> set urls. Fetch u \<notin> set (events_since s (loadGeoTIFF env s)))
       \<and> SetStatus ''Loading stress data...'' \<notin> set (events_since s (loadGeoTIFF env s))
       \<and> mapLayers (loadGeoTIFF env s) = mapLayers s
       \<and> control (loadGeoTIFF env s) = control s
       \<and> stressLayers (loadGeoTIFF env s) = stressLayers s
       \<and> loading (loadGeoTIFF env s) = loading s
       \<and> (\<forall>e. fetch env url = Inl e \<longrightarrow> status (loadGeoTIFF env s) = ''Error: '' @ message e)
       \<and> (\<forall>r. fetch env url = Inr r \<and> \<not> ok r \<longrightarrow>
             status (loadGeoTIFF env s) = ''Error: Failed to fetch GeoTIFF: '' @ statusText r)
       \<and> (\<forall>r e. fetch env url = Inr r \<and> ok r \<and> arrayBuffer r = Inl e \<longrightarrow>
             status (loadGeoTIFF env s) = ''Error: '' @ message e)
       \<and> (\<forall>r buf e. fetch env url = Inr r \<and> ok r \<and> arrayBuffer r = Inr buf
             \<and> parseGeoraster env buf = Inl e \<longrightarrow>
             status (loadGeoTIFF env s) = ''Error: '' @ message e)"
proof -
  from raster_try_failure [OF assms, of s] obtain e s1 evs where
    t: "loadGeoTIFF_try env s = (Some e, s1)"
    and f: "mapLayers s1 = mapLayers s" "control s1 = control s"
      "stressLayers s1 = stressLayers s" "loading s1 = loading s"
    and tr: "trace s1 = trace s @ evs" and fe: "filter is_Fetch evs = [Fetch url]"
    and ns: "SetStatus ''Loading stress data...'' \<notin> set evs"
    and e1: "\<forall>e'. fetch env url = Inl e' \<longrightarrow> e = e'"
    and e2: "\<forall>r. fetch env url = Inr r \<and> \<not> ok r \<longrightarrow>
               e = Error (''Failed to fetch GeoTIFF: '' @ statusText r)"
    and e3: "\<forall>r e'. fetch env url = Inr r \<and> ok r \<and> arrayBuffer r = Inl e' \<longrightarrow> e = e'"
    and e4: "\<forall>r buf e'. fetch env url = Inr r \<and> ok r \<and> arrayBuffer r = Inr buf
            \<and> parseGeoraster env buf = Inl e' \<longrightarrow> e = e'"
    by blast
  define s' where "s' = loadGeoTIFF env s"
  have s': "s' = setStatus (''Error: '' @ message e)
                   (emit (ConsoleError ''Error loading GeoTIFF:'' e) s1)"
    using t by (simp add: s'_def loadGeoTIFF_def)
  have ev: "events_since s s'
      = evs @ [ConsoleError ''Error loading GeoTIFF:'' e, SetStatus (''Error: '' @ message e)]"
    by (simp add: s' tr events_since_def)
  have a: "filter is_Fetch (events_since s s') = [Fetch url]"
    by (simp add: ev fe)
  have b: "\<forall>u \<in> set urls. Fetch u \<notin> set (events_since s s')"
  proof
    fix u assume u: "u \<in> set urls"
    show "Fetch u \<notin> set (events_since s s')"
    proof
      assume "Fetch u \<in> set (events_since s s')"
      then have "Fetch u \<in> set (filter is_Fetch (events_since s s'))" by simp
      with a have "u = url" by simp
      with u show False by (simp add: urls_def url_def)
    qed
  qed
  have c: "SetStatus ''Loading stress data...'' \<notin> set (events_since s s')"
    using ns by (simp add: ev)
  have d: "mapLayers s' = mapLayers s" "control s' = control s"
    "stressLayers s' = stressLayers s" "loading s' = loading s"
    "status s' = ''Error: '' @ message e"
    using f by (simp_all add: s')
  from e1 e2 e3 e4 d(5) have
    "\<forall>e. fetch env url = Inl e \<longrightarrow> status s' = ''Error: '' @ message e"
    "\<forall>r. fetch env url = Inr r \<and> \<not> ok r \<longrightarrow>
          status s' = ''Error: Failed to fetch GeoTIFF: '' @ statusText r"
    "\<forall>r e. fetch env url = Inr r \<and> ok r \<and> arrayBuffer r = Inl e \<longrightarrow>
          status s' = ''Error: '' @ message e"
    "\<forall>r buf e. fetch env url = Inr r \<and> ok r \<and> arrayBuffer r = Inr buf
          \<and> parseGeoraster env buf = Inl e \<longrightarrow> status s' = ''Error: '' @ message e"
    by auto
  with a b c d(1-4) show ?thesis unfolding s'_def by blast
qed

theorem raster_failure_stops_witness:
  "raster_fails env_404
   \<and> filter is_Fetch (events_since mount (loadGeoTIFF env_404 mount)) = [Fetch url]
   \<and> SetStatus ''Loading stress data...'' \<notin> set (events_since mount (loadGeoTIFF env_404 mount))
   \<and> fetch env_404 url = Inr ((resp Null)\<lparr>ok := False, statusText := ''Not Found''\<rparr>)
   \<and> \<not> ok ((resp Null)\<lparr>ok := False, statusText := ''Not Found''\<rparr>)
   \<and> status (loadGeoTIFF env_404 mount) = ''Error: Failed to fetch GeoTIFF: Not Found''
   \<and> mapLayers (loadGeoTIFF env_404 mount) = [TileLayer 0]"
proof -
  have h: "raster_fails env_404"
    by (simp add: raster_fails_def env_404_def resp_def)
  have f: "fetch env_404 url = Inr ((resp Null)\<lparr>ok := False, statusText := ''Not Found''\<rparr>)"
    by (simp add: env_404_def)
  show ?thesis
    using h f raster_failure_stops [OF h, of mount]
    by (simp add: mount_def)
qed

lemma raster_try_success:
  assumes "fetch env url = Inr r" "ok r" "arrayBuffer r = Inr buf" "parseGeoraster env buf = Inr g"
  shows "\<exists>s1 evs. loadGeoTIFF_try env s = (None, s1)
      \<and> trace s1 = trace s @ evs \<and> filter is_SetLoading evs = [] \<and> loading s1 = loading s
      \<and> (GeoRasterLayer (nextId s) g, ''GeoTIFF Base Layer'', True) \<in> set (control s1)
      \<and> (\<forall>b. valid_bounds g = Some b \<longrightarrow> viewport s1 = FitBounds b
            \<and> status s1 = ''GeoTIFF displayed successfully''
            \<and> SetStatus ''GeoTIFF displayed successfully'' \<in> set evs)
      \<and> (valid_bounds g = None \<longrightarrow> viewport s1 = viewport s
            \<and> status s1 = ''GeoTIFF loaded, but no valid bounds''
            \<and> SetStatus ''GeoTIFF loaded, but no valid bounds'' \<in> set evs)"
  using assms
  by (auto simp: loadGeoTIFF_try_def valid_bounds_def Let_def split: option.splits)

text \<open>
  C6. After a successful fetch and decode of the raster the \<open>try\<close> block reaches the
  call of \<open>loadStressData\<close> without an exception. If the layer reports valid bounds,
  the viewport is fitted to them and the status is set to
  \<open>GeoTIFF displayed successfully\<close>; otherwise the viewport is as before and the status
  is set to \<open>GeoTIFF loaded, but no valid bounds\<close>. The vector overlay step that
  follows leaves the viewport as the raster step set it.
\<close>

theorem raster_success_viewport:
  assumes "fetch env url = Inr r" and "ok r" and "arrayBuffer r = Inr buf"
    and "parseGeoraster env buf = Inr g"
  shows "fst (loadGeoTIFF_try env s) = None
       \<and> (\<forall>b. valid_bounds g = Some b \<longrightarrow>
             viewport (snd (loadGeoTIFF_try env s)) = FitBounds b
             \<and> status (snd (loadGeoTIFF_try env s)) = ''GeoTIFF displayed successfully''
             \<and> viewport (loadGeoTIFF env s) = FitBounds b
             \<and> SetStatus ''GeoTIFF displayed successfully''
                 \<in> set (events_since s (loadGeoTIFF env s)))
       \<and> (valid_bounds g = None \<longrightarrow>
             viewport (snd (loadGeoTIFF_try env s)) = viewport s
             \<and> status (snd (loadGeoTIFF_try env s)) = ''GeoTIFF loaded, but no valid bounds''
             \<and> viewport (loadGeoTIFF env s) = viewport s
             \<and> SetStatus ''GeoTIFF loaded, but no valid bounds''
                 \<in> set (events_since s (loadGeoTIFF env s)))"
proof -
  from raster_try_success [OF assms, of s] obtain s1 evs where
    t: "loadGeoTIFF_try env s = (None, s1)" and tr: "trace s1 = trace s @ evs"
    and v: "\<forall>b. valid_bounds g = Some b \<longrightarrow> viewport s1 = FitBounds b
            \<and> status s1 = ''GeoTIFF displayed successfully''
            \<and> SetStatus ''GeoTIFF displayed successfully'' \<in> set evs"
    and d: "valid_bounds g = None \<longrightarrow> viewport s1 = viewport s
            \<and> status s1 = ''GeoTIFF loaded, but no valid bounds''
            \<and> SetStatus ''GeoTIFF loaded, but no valid bounds'' \<in> set evs"
    by (elim exE conjE) (rule that, assumption+)
  have l: "loadGeoTIFF env s = loadStressDataFrom urls env s1"
    using t by (simp add: loadGeoTIFF_def loadStressData_def)
  have vp: "viewport (loadGeoTIFF env s) = viewport s1"
    by (simp add: l stress_frame(1))
  from stress_frame(2) [of urls env s1] obtain evs' where
    "trace (loadGeoTIFF env s) = trace s @ evs @ evs'"
    by (auto simp: l tr)
  then have ev: "events_since s (loadGeoTIFF env s) = evs @ evs'"
    by simp
  from t v d vp ev show ?thesis by simp
qed

theorem raster_success_viewport_witness:
  "fetch env_ok url = Inr (resp (feat (1 / 2))) \<and> ok (resp (feat (1 / 2)))
   \<and> arrayBuffer (resp (feat (1 / 2))) = Inr [73, 73, 42, 0]
   \<and> parseGeoraster env_ok [73, 73, 42, 0] = Inr raster0
   \<and> valid_bounds raster0 = Some \<lparr>southWest = Some (0, 0), northEast = Some (1, 1)\<rparr>
   \<and> viewport (loadGeoTIFF env_ok mount)
       = FitBounds \<lparr>southWest = Some (0, 0), northEast = Some (1, 1)\<rparr>
   \<and> status (snd (loadGeoTIFF_try env_ok mount)) = ''GeoTIFF displayed successfully''"
proof -
  have a: "fetch env_ok url = Inr (resp (feat (1 / 2)))"
    by (simp add: env_ok_def url_def)
  have b: "ok (resp (feat (1 / 2)))" by (simp add: resp_def)
  have c: "arrayBuffer (resp (feat (1 / 2))) = Inr [73, 73, 42, 0]" by (simp add: resp_def)
  have d: "parseGeoraster env_ok [73, 73, 42, 0] = Inr raster0" by (simp add: env_ok_def)
  have e: "valid_bounds raster0 = Some \<lparr>southWest = Some (0, 0), northEast = Some (1, 1)\<rparr>"
    by (simp add: valid_bounds_def raster0_def isValid_def)
  show ?thesis
    using a b c d e raster_success_viewport [OF a b c d, of mount]
    by simp
qed

section \<open>The loading flag\<close>

lemma raster_try_no_SetLoading:
  "\<exists>evs. trace (snd (loadGeoTIFF_try env s)) = trace s @ evs \<and> filter is_SetLoading evs = []"
  by (auto simp: loadGeoTIFF_try_def Let_def split: sum.splits option.splits)

lemma raster_try_None: "\<not> raster_fails env \<Longrightarrow> fst (loadGeoTIFF_try env s) = None"
  by (auto simp: loadGeoTIFF_try_def raster_fails_def Let_def split: sum.splits option.splits)

lemma env_ok_raster: "\<not> raster_fails env_ok"
  by (simp add: raster_fails_def input_defs)

text \<open>
  C8. When the raster step does not fail and the vector overlay step succeeds, the run
  of \<open>loadGeoTIFF\<close> calls \<open>setLoading\<close> exactly once, with \<open>false\<close>; at the end the
  flag is false and \<open>App\<close> no longer shows the loading heading.
\<close>

theorem loading_finished_once:
  assumes "\<not> raster_fails env" and "stress_succeeds urls env"
  shows "filter is_SetLoading (events_since s (loadGeoTIFF env s)) = [SetLoading False]
       \<and> loading (loadGeoTIFF env s) = False
       \<and> \<not> App_shows_loading (loadGeoTIFF env s)
       \<and> status (loadGeoTIFF env s) = ''Stress data overlaid successfully''"
proof -
  define s1 where "s1 = snd (loadGeoTIFF_try env s)"
  from assms(1) have "fst (loadGeoTIFF_try env s) = None" by (rule raster_try_None)
  then have t: "loadGeoTIFF_try env s = (None, s1)"
    by (cases "loadGeoTIFF_try env s") (simp add: s1_def)
  then have l: "loadGeoTIFF env s = loadStressDataFrom urls env s1"
    by (simp add: loadGeoTIFF_def loadStressData_def)
  from assms(2) have ok: "fst (loadStressData_try urls env s1) = None"
    by (simp add: try_None_iff)
  from raster_try_no_SetLoading [of env s] obtain evs where
    e1: "trace s1 = trace s @ evs" "filter is_SetLoading evs = []"
    by (auto simp: s1_def)
  from stress_frame(2) [of urls env s1] ok obtain evs' where
    e2: "trace (loadGeoTIFF env s) = trace s1 @ evs'" "filter is_SetLoading evs' = [SetLoading False]"
    by (auto simp: l)
  from e1 e2 have "events_since s (loadGeoTIFF env s) = evs @ evs'" by simp
  with e1 e2 have "filter is_SetLoading (events_since s (loadGeoTIFF env s)) = [SetLoading False]"
    by simp
  moreover from ok have "loading (loadGeoTIFF env s) = False"
    "status (loadGeoTIFF env s) = ''Stress data overlaid successfully''"
    unfolding l by (rule stress_success(2), rule stress_success(3))
  ultimately show ?thesis by (simp add: App_shows_loading_def)
qed

theorem loading_finished_once_witness:
  "\<not> raster_fails env_ok \<and> stress_succeeds urls env_ok
   \<and> loading mount \<and> App_shows_loading mount
   \<and> filter is_SetLoading (events_since mount (loadGeoTIFF env_ok mount)) = [SetLoading False]
   \<and> \<not> loading (loadGeoTIFF env_ok mount)
   \<and> \<not> App_shows_loading (loadGeoTIFF env_ok mount)"
proof -
  have c: "loading mount" "App_shows_loading mount"
    by (simp_all add: App_shows_loading_def mount_def)
  show ?thesis
    using c env_ok_raster env_ok_succeeds
      loading_finished_once [OF env_ok_raster env_ok_succeeds, of mount]
    by simp
qed

section \<open>What the vector overlay step reads of its responses\<close>

lemma bodies_with_status: "bodies us (with_status k t env) = bodies us env"
proof -
  let ?R = "\<lambda>r r'. json r' = json r"
  have "list_all2 (rel_sum (=) ?R) (map (fetch env) us) (map (fetch (with_status k t env)) us)"
    by (induction us) (auto simp: with_status_def split: sum.splits)
  from promise_all_rel [OF this]
  have r: "rel_sum (=) (list_all2 ?R) (promise_all (map (fetch env) us))
             (promise_all (map (fetch (with_status k t env)) us))" .
  show ?thesis
  proof (cases "promise_all (map (fetch env) us)")
    case (Inl e)
    with r have "promise_all (map (fetch (with_status k t env)) us) = Inl e"
      by (cases "promise_all (map (fetch (with_status k t env)) us)") auto
    with Inl show ?thesis by (simp add: bodies_def)
  next
    case (Inr rs)
    with r obtain rs' where rs': "promise_all (map (fetch (with_status k t env)) us) = Inr rs'"
      and l: "list_all2 ?R rs rs'"
      by (cases "promise_all (map (fetch (with_status k t env)) us)") auto
    from l have "map json rs' = map json rs"
      by (induction rule: list_all2_induct) auto
    with Inr rs' show ?thesis by (simp add: bodies_def)
  qed
qed

lemma load_with_status:
  "loadStressDataFrom us (with_status k t env) s = loadStressDataFrom us env s"
  by (simp add: loadStressDataFrom_def try_via_bodies bodies_with_status)

text \<open>
  C10, counterexample. Both stress files are answered with status 404 and the body
  \<open>null\<close>, which parses: no fetch rejects and no parse fails, yet reading
  \<open>dataset.type\<close> throws and the step ends in its \<open>catch\<close>, with the loading flag
  still set.
\<close>

theorem status_not_inspected_counterexample:
  "\<not> fetch_or_parse_fails urls env_404
   \<and> parsed_bodies urls env_404 = [Null, Null]
   \<and> status (loadStressData env_404 mount)
       = ''Error loading stress data: Cannot read properties of null (reading type)''
   \<and> loading (loadStressData env_404 mount)"
  by (simp add: fetch_or_parse_fails_def parsed_bodies_def loadStressData_def
      loadStressDataFrom_def step_defs input_defs)

text \<open>
  C10, amended. The vector overlay step does not look at the status of its responses:
  whatever status and status text the responses carry, the step does the same. It
  ends with the success status exactly when no fetch rejects, every body parses and
  building the overlays from the parsed bodies throws no exception.
\<close>

theorem status_not_inspected:
  "loadStressDataFrom us (with_status k t env) s = loadStressDataFrom us env s
   \<and> (status (loadStressDataFrom us env s) = ''Stress data overlaid successfully'')
       = (\<not> fetch_or_parse_fails us env \<and> build_exception (parsed_bodies us env) = None)"
  using load_with_status [of us k t env s] success_status_iff [of us env s] by simp

theorem status_not_inspected_witness:
  "\<not> fetch_or_parse_fails urls env_ok
   \<and> build_exception (parsed_bodies urls env_ok) = None
   \<and> status (loadStressData (with_status (\<lambda>u. False) (\<lambda>u. ''Not Found'') env_ok) mount)
       = ''Stress data overlaid successfully''
   \<and> loadStressData (with_status (\<lambda>u. False) (\<lambda>u. ''Not Found'') env_ok) mount
       = loadStressData env_ok mount"
proof -
  have a: "\<not> fetch_or_parse_fails urls env_ok"
    by (simp add: fetch_or_parse_fails_def input_defs)
  have p: "parsed_bodies urls env_ok = [collection [feat (1 / 5)], feat (1 / 2)]"
    by (simp add: parsed_bodies_def env_ok_def resp_def urls_def)
  have b: "build_exception (parsed_bodies urls env_ok) = None"
    unfolding p by (simp add: build_exception_def step_defs input_defs)
  show ?thesis
    using a b status_not_inspected [of urls "\<lambda>u. False" "\<lambda>u. ''Not Found''" env_ok mount]
    by (simp add: loadStressData_def)
qed

section \<open>A single feature as a body\<close>

lemma bodies_with_bodies:
  "bodies us (with_bodies f env) = map_sum id (map f) (bodies us env)"
proof -
  let ?R = "\<lambda>r r'. json r' = map_sum id f (json r)"
  have "list_all2 (rel_sum (=) ?R) (map (fetch env) us) (map (fetch (with_bodies f env)) us)"
    by (induction us) (auto simp: with_bodies_def split: sum.splits)
  from promise_all_rel [OF this]
  have r: "rel_sum (=) (list_all2 ?R) (promise_all (map (fetch env) us))
             (promise_all (map (fetch (with_bodies f env)) us))" .
  show ?thesis
  proof (cases "promise_all (map (fetch env) us)")
    case (Inl e)
    with r have "promise_all (map (fetch (with_bodies f env)) us) = Inl e"
      by (cases "promise_all (map (fetch (with_bodies f env)) us)") auto
    with Inl show ?thesis by (simp add: bodies_def)
  next
    case (Inr rs)
    with r obtain rs' where rs': "promise_all (map (fetch (with_bodies f env)) us) = Inr rs'"
      and l: "list_all2 ?R rs rs'"
      by (cases "promise_all (map (fetch (with_bodies f env)) us)") auto
    from l have "map json rs' = map (map_sum id f) (map json rs)"
      by (induction rule: list_all2_induct) (auto simp: id_def)
    with Inr rs' show ?thesis
      using promise_all_map_sum [of f "map json rs"] by (simp add: bodies_def)
  qed
qed

lemma add_dataset_as_collection:
  "add_dataset (as_collection d) i s = add_dataset d i s"
proof (cases "is_feature d")
  case False
  then show ?thesis by (simp add: as_collection_def)
next
  case True
  then obtain kvs where d: "d = Obj kvs" and t: "map_of kvs ''type'' = Some (Str ''Feature'')"
    by (auto simp: is_feature_def split: jv.splits)
  have g: "geoJSON i (collection [d]) = geoJSON i d"
    using d t by (simp add: geoJSON_def geoJSON_features_def collection_def)
  have "add_dataset (collection [d]) i s = add_dataset d i s"
    unfolding add_dataset_def g
    using d t by (simp add: collection_def)
  with True show ?thesis by (simp add: as_collection_def)
qed

lemma forEach_as_collection:
  "forEach_dataset (map as_collection ds) i s = forEach_dataset ds i s"
  by (induction ds arbitrary: i s)
    (simp_all add: add_dataset_as_collection split: prod.splits option.splits)

text \<open>
  C9. A body that is a single feature object is treated as the one-element collection
  around it: replacing every such body by that collection changes nothing in what the
  vector overlay step does (log line, children with their styles and popups, layers,
  registration, status). In the loop body the two datasets give the same result, and
  the layer built from either has the one child of that feature.
\<close>

theorem single_feature_as_collection:
  "loadStressDataFrom us (with_bodies as_collection env) s = loadStressDataFrom us env s
   \<and> (is_feature d \<longrightarrow>
         as_collection d = collection [d]
         \<and> add_dataset d i s = add_dataset (collection [d]) i s
         \<and> geoJSON i d = each (featureLayer i) [d]
         \<and> geoJSON i (collection [d]) = each (featureLayer i) [d])"
proof -
  have "loadStressData_try us (with_bodies as_collection env) s = loadStressData_try us env s"
    by (cases "bodies us env")
      (simp_all add: try_via_bodies bodies_with_bodies forEach_as_collection)
  then have a: "loadStressDataFrom us (with_bodies as_collection env) s
                  = loadStressDataFrom us env s"
    by (simp add: loadStressDataFrom_def)
  have b: "as_collection d = collection [d]"
    "add_dataset d i s = add_dataset (collection [d]) i s" if "is_feature d"
    using that add_dataset_as_collection [of d i s] by (simp_all add: as_collection_def)
  have c: "geoJSON i d = each (featureLayer i) [d]"
    "geoJSON i (collection [d]) = each (featureLayer i) [d]" if "is_feature d"
    using that
    by (auto simp: geoJSON_def geoJSON_features_def collection_def is_feature_def split: jv.splits)
  from a b c show ?thesis by blast
qed

theorem single_feature_as_collection_witness:
  "is_feature (feat (1 / 2))
   \<and> as_collection (feat (1 / 2)) = collection [feat (1 / 2)]
   \<and> add_dataset (feat (1 / 2)) 1 mount = add_dataset (collection [feat (1 / 2)]) 1 mount
   \<and> loadStressData (with_bodies as_collection env_ok) mount = loadStressData env_ok mount"
proof -
  have a: "is_feature (feat (1 / 2))" by (simp add: is_feature_def feat_def)
  show ?thesis
    using a single_feature_as_collection [of urls env_ok mount "feat (1 / 2)" 1]
    by (simp add: loadStressData_def)
qed

section \<open>Layers after a successful vector overlay step\<close>

lemma add_dataset_fields:
  assumes "add_dataset d i s = (None, s')"
  shows "\<exists>cs. geoJSON i d = Inr cs
      \<and> stressLayers s' = stressLayers s @ [GeoJSON (nextId s) cs]
      \<and> control s' = control s @ [(GeoJSON (nextId s) cs, overlay_name i, True)]
      \<and> nextId s' = Suc (nextId s)
      \<and> mapLayers s' = (if i = 0 \<and> nextId s \<notin> lid ` set (mapLayers s)
                         then mapLayers s @ [GeoJSON (nextId s) cs] else mapLayers s)"
  using assms
  by (auto simp: add_dataset_def Let_def overlay_name_def mapLayers_addTo split: sum.splits)

lemma forEach_success_later:
  assumes "forEach_dataset ds i s = (None, s')" and "0 < i"
  shows "\<exists>ls. length ls = length ds
      \<and> (\<forall>k < length ls. is_geojson (ls ! k) \<and> lid (ls ! k) = nextId s + k)
      \<and> (\<forall>k < length ls. \<exists>cs. ls ! k = GeoJSON (nextId s + k) cs
             \<and> geoJSON (i + k) (ds ! k) = Inr cs)
      \<and> stressLayers s' = stressLayers s @ ls
      \<and> control s' = control s @ new_entries i ls
      \<and> nextId s' = nextId s + length ds
      \<and> mapLayers s' = mapLayers s"
  using assms
proof (induction ds arbitrary: i s)
  case Nil
  then show ?case by simp
next
  case (Cons d ds)
  from Cons.prems(1) obtain s1 where a: "add_dataset d i s = (None, s1)"
    and r: "forEach_dataset ds (Suc i) s1 = (None, s')"
    by (auto split: prod.splits option.splits)
  from add_dataset_fields [OF a] Cons.prems(2) obtain cs where
    g: "geoJSON i d = Inr cs" and
    s1: "stressLayers s1 = stressLayers s @ [GeoJSON (nextId s) cs]"
      "control s1 = control s @ [(GeoJSON (nextId s) cs, overlay_name i, True)]"
      "nextId s1 = Suc (nextId s)" "mapLayers s1 = mapLayers s"
    by auto
  from Cons.IH [OF r] obtain ls where
    ls: "length ls = length ds"
      "\<forall>k < length ls. is_geojson (ls ! k) \<and> lid (ls ! k) = nextId s1 + k"
      "stressLayers s' = stressLayers s1 @ ls"
      "control s' = control s1 @ new_entries (Suc i) ls"
      "nextId s' = nextId s1 + length ds" "mapLayers s' = mapLayers s1"
    and built: "\<forall>k < length ls. \<exists>cs. ls ! k = GeoJSON (nextId s1 + k) cs
             \<and> geoJSON (Suc i + k) (ds ! k) = Inr cs"
    by auto
  let ?ls = "GeoJSON (nextId s) cs # ls"
  have "\<forall>k < length ?ls. is_geojson (?ls ! k) \<and> lid (?ls ! k) = nextId s + k"
    using ls(2) s1(3) by (auto simp: nth_Cons split: nat.splits)
  moreover have "\<forall>k < length ?ls. \<exists>cs'. ?ls ! k = GeoJSON (nextId s + k) cs'
             \<and> geoJSON (i + k) ((d # ds) ! k) = Inr cs'"
    using built g s1(3) by (auto simp: nth_Cons split: nat.splits)
  moreover have "length ?ls = length (d # ds)" using ls(1) by simp
  moreover have "stressLayers s' = stressLayers s @ ?ls" using ls(3) s1(1) by simp
  moreover have "control s' = control s @ new_entries i ?ls" using ls(4) s1(2) by simp
  moreover have "nextId s' = nextId s + length (d # ds)" using ls(5) s1(3) by simp
  moreover have "mapLayers s' = mapLayers s" using ls(6) s1(4) by simp
  ultimately show ?case by blast
qed

lemma forEach_success_shape:
  assumes "forEach_dataset ds 0 s = (None, s')"
    and "\<forall>l \<in> set (mapLayers s). lid l < nextId s"
  shows "\<exists>ls. length ls = length ds
      \<and> (\<forall>k < length ls. is_geojson (ls ! k) \<and> lid (ls ! k) = nextId s + k)
      \<and> (\<forall>k < length ls. \<exists>cs. ls ! k = GeoJSON (nextId s + k) cs
             \<and> geoJSON k (ds ! k) = Inr cs)
      \<and> stressLayers s' = stressLayers s @ ls
      \<and> control s' = control s @ new_entries 0 ls
      \<and> nextId s' = nextId s + length ds
      \<and> mapLayers s' = mapLayers s @ take 1 ls"
proof (cases ds)
  case Nil
  with assms(1) show ?thesis by simp
next
  case (Cons d ds')
  with assms(1) obtain s1 where a: "add_dataset d 0 s = (None, s1)"
    and r: "forEach_dataset ds' (Suc 0) s1 = (None, s')"
    by (auto split: prod.splits option.splits)
  have fresh: "nextId s \<notin> lid ` set (mapLayers s)"
    using assms(2) by auto
  from add_dataset_fields [OF a] fresh obtain cs where
    g: "geoJSON 0 d = Inr cs" and
    s1: "stressLayers s1 = stressLayers s @ [GeoJSON (nextId s) cs]"
      "control s1 = control s @ [(GeoJSON (nextId s) cs, overlay_name 0, True)]"
      "nextId s1 = Suc (nextId s)" "mapLayers s1 = mapLayers s @ [GeoJSON (nextId s) cs]"
    by auto
  from forEach_success_later [OF r] obtain ls where
    ls: "length ls = length ds'"
      "\<forall>k < length ls. is_geojson (ls ! k) \<and> lid (ls ! k) = nextId s1 + k"
      "stressLayers s' = stressLayers s1 @ ls"
      "control s' = control s1 @ new_entries (Suc 0) ls"
      "nextId s' = nextId s1 + length ds'" "mapLayers s' = mapLayers s1"
    and built: "\<forall>k < length ls. \<exists>cs. ls ! k = GeoJSON (nextId s1 + k) cs
             \<and> geoJSON (Suc 0 + k) (ds' ! k) = Inr cs"
    by auto
  let ?ls = "GeoJSON (nextId s) cs # ls"
  have "\<forall>k < length ?ls. is_geojson (?ls ! k) \<and> lid (?ls ! k) = nextId s + k"
    using ls(2) s1(3) by (auto simp: nth_Cons split: nat.splits)
  moreover have "\<forall>k < length ?ls. \<exists>cs'. ?ls ! k = GeoJSON (nextId s + k) cs'
             \<and> geoJSON k (ds ! k) = Inr cs'"
    using built g s1(3) Cons by (auto simp: nth_Cons split: nat.splits)
  moreover have "length ?ls = length ds" using ls(1) Cons by simp
  moreover have "stressLayers s' = stressLayers s @ ?ls" using ls(3) s1(1) by simp
  moreover have "control s' = control s @ new_entries 0 ?ls" using ls(4) s1(2) by simp
  moreover have "nextId s' = nextId s + length ds" using ls(5) s1(3) Cons by simp
  moreover have "mapLayers s' = mapLayers s @ take 1 ?ls" using ls(6) s1(4) by simp
  ultimately show ?thesis by blast
qed

lemma new_entries_layers [simp]: "map fst (new_entries i ls) = ls"
  by (induction ls arbitrary: i) auto

lemma new_entries_names:
  "map (\<lambda>e. fst (snd e)) (new_entries i ls) = map overlay_name [i ..< i + length ls]"
proof (induction ls arbitrary: i)
  case Nil
  show ?case by simp
next
  case (Cons l ls)
  have "[i ..< i + length (l # ls)] = i # [Suc i ..< Suc i + length ls]"
    by (simp add: upt_rec)
  with Cons [of "Suc i"] show ?case by simp
qed

lemma new_entries_overlay: "e \<in> set (new_entries i ls) \<Longrightarrow> snd (snd e)"
  by (induction ls arbitrary: i) auto

lemma new_entries_set: "e \<in> set (new_entries i ls) \<Longrightarrow> fst e \<in> set ls"
  by (induction ls arbitrary: i) auto

lemma filter_new_entries:
  "\<forall>l \<in> set ls. is_geojson l \<Longrightarrow>
     filter (\<lambda>e. is_geojson (fst e)) (new_entries i ls) = new_entries i ls"
  by (induction ls arbitrary: i) auto

lemma filter_new_entries_not:
  "\<forall>l \<in> set ls. is_geojson l \<Longrightarrow>
     filter (\<lambda>e. \<not> is_geojson (fst e)) (new_entries i ls) = []"
  by (induction ls arbitrary: i) auto

lemma stress_success_shape:
  assumes "tracked s" and "fst (loadStressData_try us env s) = None"
  shows "\<exists>ls. stressLayers (loadStressDataFrom us env s) = ls
      \<and> length ls = length us
      \<and> (\<forall>k < length ls. is_geojson (ls ! k) \<and> lid (ls ! k) = nextId s + k)
      \<and> (\<forall>k < length ls. \<exists>cs. ls ! k = GeoJSON (nextId s + k) cs
             \<and> geoJSON k (parsed_bodies us env ! k) = Inr cs)
      \<and> mapLayers (loadStressDataFrom us env s)
          = filter (\<lambda>l. \<not> is_geojson l) (mapLayers s) @ take 1 ls
      \<and> control (loadStressDataFrom us env s)
          = filter (\<lambda>e. \<not> is_geojson (fst e)) (control s) @ new_entries 0 ls
      \<and> nextId (loadStressDataFrom us env s) = nextId s + length us"
proof -
  define s2 where "s2 = fold (\<lambda>u. emit (Fetch u)) us (setStatus ''Loading stress data...'' s)"
  define sr where "sr = remove_previous s2"
  from assms(2) obtain ds where ds: "bodies us env = Inr ds"
    by (cases "bodies us env") (auto simp: try_via_bodies)
  obtain r s3 where f: "forEach_dataset ds 0 sr = (r, s3)"
    by (cases "forEach_dataset ds 0 sr")
  from assms(2) ds f have r: "r = None"
    by (cases r) (auto simp: try_via_bodies s2_def sr_def)
  with ds f have s': "loadStressDataFrom us env s
      = setLoading False (setStatus ''Stress data overlaid successfully'' s3)"
    by (simp add: loadStressDataFrom_def try_via_bodies s2_def sr_def)
  have m: "mapLayers sr = filter (\<lambda>l. \<not> is_geojson l) (mapLayers s)"
    using assms(1) by (auto simp: sr_def s2_def tracked_def intro!: filter_cong)
  have c: "control sr = filter (\<lambda>e. \<not> is_geojson (fst e)) (control s)"
    using assms(1) by (auto simp: sr_def s2_def tracked_def intro!: filter_cong)
  have n: "nextId sr = nextId s" "stressLayers sr = []"
    by (simp_all add: sr_def s2_def)
  have fresh: "\<forall>l \<in> set (mapLayers sr). lid l < nextId sr"
    using assms(1) by (auto simp: m n tracked_def)
  from f r have "forEach_dataset ds 0 sr = (None, s3)" by simp
  from forEach_success_shape [OF this fresh] obtain ls where
    ls: "length ls = length ds"
      "\<forall>k < length ls. is_geojson (ls ! k) \<and> lid (ls ! k) = nextId sr + k"
      "stressLayers s3 = stressLayers sr @ ls"
      "control s3 = control sr @ new_entries 0 ls"
      "nextId s3 = nextId sr + length ds"
      "mapLayers s3 = mapLayers sr @ take 1 ls"
    and built: "\<forall>k < length ls. \<exists>cs. ls ! k = GeoJSON (nextId sr + k) cs
             \<and> geoJSON k (ds ! k) = Inr cs"
    by blast
  from ds have l: "length ds = length us" by (rule bodies_length)
  from ds have p: "ds = parsed_bodies us env" by (rule bodies_Inr_parsed)
  from ls l m c n built p show ?thesis by (simp add: s')
qed

lemma stress_success_facts:
  assumes "tracked s" and "fst (loadStressData_try us env s) = None"
  shows "tracked (loadStressDataFrom us env s)"
    and "length (stressLayers (loadStressDataFrom us env s)) = length us"
    and "\<forall>l \<in> set (stressLayers (loadStressDataFrom us env s)). is_geojson l \<and> nextId s \<le> lid l"
    and "map fst (filter (\<lambda>e. is_geojson (fst e)) (control (loadStressDataFrom us env s)))
           = stressLayers (loadStressDataFrom us env s)"
    and "map (\<lambda>e. fst (snd e))
             (filter (\<lambda>e. is_geojson (fst e)) (control (loadStressDataFrom us env s)))
           = map overlay_name [0 ..< length us]"
    and "filter is_geojson (mapLayers (loadStressDataFrom us env s))
           = take 1 (stressLayers (loadStressDataFrom us env s))"
    and "\<forall>k < length us. (stressLayers (loadStressDataFrom us env s) ! k
             \<in> set (mapLayers (loadStressDataFrom us env s))) = (k = 0)"
    and "\<forall>e \<in> set (control (loadStressDataFrom us env s)). is_geojson (fst e) \<longrightarrow> snd (snd e)"
    and "filter (\<lambda>l. \<not> is_geojson l) (mapLayers (loadStressDataFrom us env s))
           = filter (\<lambda>l. \<not> is_geojson l) (mapLayers s)"
    and "filter (\<lambda>e. \<not> is_geojson (fst e)) (control (loadStressDataFrom us env s))
           = filter (\<lambda>e. \<not> is_geojson (fst e)) (control s)"
    and "\<forall>k < length us. \<exists>cs.
           stressLayers (loadStressDataFrom us env s) ! k = GeoJSON (nextId s + k) cs
           \<and> geoJSON k (parsed_bodies us env ! k) = Inr cs"
proof -
  define s' where "s' = loadStressDataFrom us env s"
  from stress_success_shape [OF assms] obtain ls where
    sl: "stressLayers s' = ls" and len: "length ls = length us"
    and ids: "\<forall>k < length ls. is_geojson (ls ! k) \<and> lid (ls ! k) = nextId s + k"
    and built: "\<forall>k < length ls. \<exists>cs. ls ! k = GeoJSON (nextId s + k) cs
             \<and> geoJSON k (parsed_bodies us env ! k) = Inr cs"
    and m: "mapLayers s' = filter (\<lambda>l. \<not> is_geojson l) (mapLayers s) @ take 1 ls"
    and c: "control s' = filter (\<lambda>e. \<not> is_geojson (fst e)) (control s) @ new_entries 0 ls"
    and n: "nextId s' = nextId s + length us"
    unfolding s'_def by blast
  have geo: "is_geojson l \<and> nextId s \<le> lid l \<and> lid l < nextId s + length us"
    if "l \<in> set ls" for l
  proof -
    from that obtain k where "k < length ls" "l = ls ! k" by (auto simp: in_set_conv_nth)
    with ids len show ?thesis by auto
  qed
  then have allgeo: "\<forall>l \<in> set ls. is_geojson l" by blast
  have old_m: "lid l < nextId s \<and> lid l \<notin> lid ` set ls"
    if "l \<in> set (mapLayers s)" for l
    using that assms(1) geo by (fastforce simp: tracked_def)
  have old_c: "lid (fst e) < nextId s \<and> lid (fst e) \<notin> lid ` set ls"
    if "e \<in> set (control s)" for e
    using that assms(1) geo by (fastforce simp: tracked_def)
  have new_l: "lid l < nextId s' \<and> is_geojson l = (lid l \<in> set (map lid (stressLayers s')))"
    if "l \<in> set ls" for l
    using geo [OF that] that by (simp add: n sl)
  have old_l: "lid l < nextId s' \<and> is_geojson l = (lid l \<in> set (map lid (stressLayers s')))"
    if "lid l < nextId s \<and> lid l \<notin> lid ` set ls" and "\<not> is_geojson l" for l
    using that by (simp add: n sl)
  have t1: "lid l < nextId s' \<and> is_geojson l = (lid l \<in> set (map lid (stressLayers s')))"
    if "l \<in> set (mapLayers s')" for l
  proof -
    from that consider "l \<in> set (mapLayers s)" "\<not> is_geojson l" | "l \<in> set ls"
      by (auto simp: m dest: in_set_takeD)
    then show ?thesis
      using old_l [OF old_m] new_l by cases auto
  qed
  have t2: "lid (fst e) < nextId s'
        \<and> is_geojson (fst e) = (lid (fst e) \<in> set (map lid (stressLayers s')))"
    if "e \<in> set (control s')" for e
  proof -
    from that consider "e \<in> set (control s)" "\<not> is_geojson (fst e)" | "fst e \<in> set ls"
      by (auto simp: c dest: new_entries_set)
    then show ?thesis
      using old_l [OF old_c] new_l by cases auto
  qed
  have t3: "lid l < nextId s' \<and> is_geojson l" if "l \<in> set (stressLayers s')" for l
    using that geo [of l] by (simp add: sl n)
  have "tracked s'"
    unfolding tracked_def using t1 t2 t3 by blast
  then show "tracked (loadStressDataFrom us env s)" by (simp add: s'_def)
  show "length (stressLayers (loadStressDataFrom us env s)) = length us"
    using sl len by (simp add: s'_def)
  show "\<forall>l \<in> set (stressLayers (loadStressDataFrom us env s)). is_geojson l \<and> nextId s \<le> lid l"
    using sl geo by (simp add: s'_def)
  have fc: "filter (\<lambda>e. is_geojson (fst e)) (control s') = new_entries 0 ls"
    by (simp add: c filter_new_entries [OF allgeo])
  show "map fst (filter (\<lambda>e. is_geojson (fst e)) (control (loadStressDataFrom us env s)))
           = stressLayers (loadStressDataFrom us env s)"
    using fc sl by (simp add: s'_def)
  show "map (\<lambda>e. fst (snd e))
             (filter (\<lambda>e. is_geojson (fst e)) (control (loadStressDataFrom us env s)))
           = map overlay_name [0 ..< length us]"
    using fc len new_entries_names [of 0 ls] by (simp add: s'_def)
  have ft: "filter is_geojson (take 1 ls) = take 1 ls"
    using allgeo by (intro filter_True) (auto dest: in_set_takeD)
  have ff: "filter (\<lambda>l. \<not> is_geojson l) (take 1 ls) = []"
    using allgeo by (intro filter_False) (auto dest: in_set_takeD)
  have fm: "filter is_geojson (mapLayers s') = take 1 ls"
    using ft by (simp add: m)
  then show "filter is_geojson (mapLayers (loadStressDataFrom us env s))
           = take 1 (stressLayers (loadStressDataFrom us env s))"
    using sl by (simp add: s'_def)
  have "(ls ! k \<in> set (mapLayers s')) = (k = 0)" if k: "k < length us" for k
  proof -
    from k len have kl: "k < length ls" by simp
    then have g: "is_geojson (ls ! k)" "lid (ls ! k) = nextId s + k" using ids by auto
    from kl have ne: "ls \<noteq> []" by auto
    then have t: "take 1 ls = [ls ! 0]" by (cases ls) auto
    from ne ids have l0: "lid (ls ! 0) = nextId s + 0" by (metis length_greater_0_conv)
    have "(ls ! k \<in> set (mapLayers s')) = (ls ! k \<in> set (filter is_geojson (mapLayers s')))"
      using g(1) by simp
    also have "\<dots> = (ls ! k = ls ! 0)" unfolding fm t by simp
    also have "\<dots> = (k = 0)" using g(2) l0 by (cases "k = 0") auto
    finally show ?thesis .
  qed
  then show "\<forall>k < length us. (stressLayers (loadStressDataFrom us env s) ! k
             \<in> set (mapLayers (loadStressDataFrom us env s))) = (k = 0)"
    using sl by (simp add: s'_def)
  show "\<forall>e \<in> set (control (loadStressDataFrom us env s)). is_geojson (fst e) \<longrightarrow> snd (snd e)"
    unfolding s'_def [symmetric] c by (auto dest: new_entries_overlay)
  show "filter (\<lambda>l. \<not> is_geojson l) (mapLayers (loadStressDataFrom us env s))
           = filter (\<lambda>l. \<not> is_geojson l) (mapLayers s)"
    unfolding s'_def [symmetric] m using ff by simp
  show "filter (\<lambda>e. \<not> is_geojson (fst e)) (control (loadStressDataFrom us env s))
           = filter (\<lambda>e. \<not> is_geojson (fst e)) (control s)"
    unfolding s'_def [symmetric] c by (simp add: filter_new_entries_not [OF allgeo])
  show "\<forall>k < length us. \<exists>cs.
           stressLayers (loadStressDataFrom us env s) ! k = GeoJSON (nextId s + k) cs
           \<and> geoJSON k (parsed_bodies us env ! k) = Inr cs"
    using built sl len by (simp add: s'_def)
qed

section \<open>The invariant on layers\<close>

lemma tracked_mount: "tracked mount"
  by (simp add: tracked_def mount_def)

lemma tracked_trace [simp]:
  "tracked (emit e s) = tracked s" "tracked (setStatus m s) = tracked s"
  "tracked (setLoading b s) = tracked s" "tracked (fitBounds bd s) = tracked s"
  "tracked (fold (\<lambda>u. emit (f u)) us s) = tracked s"
  by (simp_all add: tracked_def)

lemma tracked_remove_previous:
  assumes "tracked s"
  shows "tracked (remove_previous s)"
  using assms by (auto simp: tracked_def)

lemma tracked_add_dataset:
  assumes "tracked s"
  shows "tracked (snd (add_dataset d i s))"
proof (cases "fst (add_dataset d i s)")
  case (Some e)
  then have "mapLayers (snd (add_dataset d i s)) = mapLayers s"
    "control (snd (add_dataset d i s)) = control s"
    "stressLayers (snd (add_dataset d i s)) = stressLayers s"
    "nextId (snd (add_dataset d i s)) = nextId s"
    by (auto simp: add_dataset_def Let_def split: sum.splits)
  with assms show ?thesis by (simp add: tracked_def)
next
  case None
  then obtain s' where a: "add_dataset d i s = (None, s')"
    by (cases "add_dataset d i s") auto
  from add_dataset_fields [OF a] obtain cs where
    f: "stressLayers s' = stressLayers s @ [GeoJSON (nextId s) cs]"
      "control s' = control s @ [(GeoJSON (nextId s) cs, overlay_name i, True)]"
      "nextId s' = Suc (nextId s)"
      "mapLayers s' = (if i = 0 \<and> nextId s \<notin> lid ` set (mapLayers s)
                         then mapLayers s @ [GeoJSON (nextId s) cs] else mapLayers s)"
    by blast
  have "tracked s'"
    unfolding tracked_def f using assms
    by (auto simp: tracked_def less_Suc_eq)
  with a show ?thesis by simp
qed

lemma tracked_forEach:
  "tracked s \<Longrightarrow> tracked (snd (forEach_dataset ds i s))"
proof (induction ds arbitrary: i s)
  case Nil
  then show ?case by simp
next
  case (Cons d ds)
  obtain r s1 where a: "add_dataset d i s = (r, s1)" by (cases "add_dataset d i s")
  with tracked_add_dataset [OF Cons.prems, of d i] have t: "tracked s1" by simp
  show ?case
  proof (cases r)
    case None
    with a Cons.IH [OF t, of "Suc i"] show ?thesis by simp
  next
    case (Some e)
    with a t show ?thesis by simp
  qed
qed

lemma tracked_loadStressData:
  assumes "tracked s"
  shows "tracked (loadStressDataFrom us env s)"
proof -
  define s2 where "s2 = fold (\<lambda>u. emit (Fetch u)) us (setStatus ''Loading stress data...'' s)"
  have t2: "tracked s2" using assms by (simp add: s2_def)
  show ?thesis
  proof (cases "bodies us env")
    case (Inl e)
    with t2 show ?thesis
      by (simp add: loadStressDataFrom_def try_via_bodies s2_def)
  next
    case (Inr ds)
    obtain r s3 where f: "forEach_dataset ds 0 (remove_previous s2) = (r, s3)"
      by (cases "forEach_dataset ds 0 (remove_previous s2)")
    from tracked_forEach [OF tracked_remove_previous [OF t2], of ds 0] f
    have "tracked s3" by simp
    with Inr f show ?thesis
      by (cases r) (simp_all add: loadStressDataFrom_def try_via_bodies s2_def)
  qed
qed

lemma tracked_raster:
  assumes "tracked s"
  shows "tracked (snd (loadGeoTIFF_try env s))"
  using assms
  by (auto simp: loadGeoTIFF_try_def Let_def tracked_def mapLayers_addTo less_Suc_eq
      split: sum.splits option.splits)

lemma tracked_loadGeoTIFF:
  assumes "tracked s"
  shows "tracked (loadGeoTIFF env s)"
proof -
  obtain r s1 where t: "loadGeoTIFF_try env s = (r, s1)" by (cases "loadGeoTIFF_try env s")
  with tracked_raster [OF assms, of env] have "tracked s1" by simp
  with t show ?thesis
    by (cases r) (simp_all add: loadGeoTIFF_def loadStressData_def tracked_loadStressData)
qed

lemma tracked_after_raster: "tracked after_raster"
  by (simp add: tracked_def after_raster_def step_defs input_defs)

section \<open>Default visibility and repeated loads\<close>

lemma two_names:
  "map overlay_name [0 ..< length urls] = [''Stress Sample 1'', ''Stress Sample 2'']"
  by (simp add: urls_def overlay_name_def upt_rec string_of_nat.simps digit_def)

text \<open>
  C7. After a successful vector overlay step over \<open>n\<close> paths, started in a state
  that satisfies the invariant, there are \<open>n\<close> stress layers, all GeoJSON layers; the
  GeoJSON layers on the map are exactly the first of them, so the layer of index
  \<open>k\<close> is on the map if and only if \<open>k = 0\<close>; the GeoJSON layers in the layer control
  are exactly the stress layers, in order, under the names \<open>Stress Sample 1\<close>, ...,
  \<open>Stress Sample n\<close>, each registered as an overlay. The layer of index \<open>k\<close> is the
  one built from the body of the \<open>k\<close>-th path.
\<close>

theorem first_overlay_visible:
  assumes "tracked s" and "stress_succeeds us env"
  shows "length (stressLayers (loadStressDataFrom us env s)) = length us
       \<and> (\<forall>l \<in> set (stressLayers (loadStressDataFrom us env s)). is_geojson l)
       \<and> filter is_geojson (mapLayers (loadStressDataFrom us env s))
           = take 1 (stressLayers (loadStressDataFrom us env s))
       \<and> (\<forall>k < length us. (stressLayers (loadStressDataFrom us env s) ! k
             \<in> set (mapLayers (loadStressDataFrom us env s))) = (k = 0))
       \<and> map fst (filter (\<lambda>e. is_geojson (fst e)) (control (loadStressDataFrom us env s)))
           = stressLayers (loadStressDataFrom us env s)
       \<and> map (\<lambda>e. fst (snd e))
             (filter (\<lambda>e. is_geojson (fst e)) (control (loadStressDataFrom us env s)))
           = map overlay_name [0 ..< length us]
       \<and> (\<forall>e \<in> set (control (loadStressDataFrom us env s)). is_geojson (fst e) \<longrightarrow> snd (snd e))
       \<and> (\<forall>k < length us. \<exists>cs.
             stressLayers (loadStressDataFrom us env s) ! k = GeoJSON (nextId s + k) cs
             \<and> geoJSON k (parsed_bodies us env ! k) = Inr cs)"
proof -
  from assms(2) have ok: "fst (loadStressData_try us env s) = None"
    by (simp add: try_None_iff)
  from stress_success_facts(2-8,11) [OF assms(1) ok] show ?thesis by blast
qed

theorem first_overlay_visible_witness:
  "tracked after_raster \<and> stress_succeeds urls env_ok
   \<and> length (stressLayers (loadStressData env_ok after_raster)) = 2
   \<and> filter is_geojson (mapLayers (loadStressData env_ok after_raster))
       = take 1 (stressLayers (loadStressData env_ok after_raster))
   \<and> stressLayers (loadStressData env_ok after_raster) ! 0
       \<in> set (mapLayers (loadStressData env_ok after_raster))
   \<and> stressLayers (loadStressData env_ok after_raster) ! 1
       \<notin> set (mapLayers (loadStressData env_ok after_raster))
   \<and> map (\<lambda>e. fst (snd e))
         (filter (\<lambda>e. is_geojson (fst e)) (control (loadStressData env_ok after_raster)))
       = [''Stress Sample 1'', ''Stress Sample 2'']"
proof -
  note f = first_overlay_visible [OF tracked_after_raster env_ok_succeeds,
      folded loadStressData_def]
  from f have k: "\<forall>k < length urls. (stressLayers (loadStressData env_ok after_raster) ! k
             \<in> set (mapLayers (loadStressData env_ok after_raster))) = (k = 0)"
    by blast
  have l: "length urls = 2" by (simp add: urls_def)
  from k l have "stressLayers (loadStressData env_ok after_raster) ! 0
       \<in> set (mapLayers (loadStressData env_ok after_raster))"
    "stressLayers (loadStressData env_ok after_raster) ! 1
       \<notin> set (mapLayers (loadStressData env_ok after_raster))"
    by simp_all
  with f l two_names tracked_after_raster env_ok_succeeds show ?thesis by simp
qed

text \<open>
  C5. Two successful vector overlay steps in a row (the network may answer differently
  the second time), started in a state that satisfies the invariant: the layer control
  then holds exactly one GeoJSON entry per path, under the pairwise different names
  \<open>Stress Sample 1\<close>, ..., \<open>Stress Sample n\<close>, and these are the stress layers of the
  second step; every stress layer of the first step is gone from the map, from the layer
  control and from the list of stress layers; the other layers on the map and in the
  layer control are as they were.
\<close>

theorem reload_replaces_overlays:
  assumes "tracked s" and "stress_succeeds us env" and "stress_succeeds us env'"
  shows "map (\<lambda>e. fst (snd e))
           (filter (\<lambda>e. is_geojson (fst e))
              (control (loadStressDataFrom us env' (loadStressDataFrom us env s))))
           = map overlay_name [0 ..< length us]
       \<and> distinct (map overlay_name [0 ..< length us])
       \<and> map fst (filter (\<lambda>e. is_geojson (fst e))
              (control (loadStressDataFrom us env' (loadStressDataFrom us env s))))
           = stressLayers (loadStressDataFrom us env' (loadStressDataFrom us env s))
       \<and> length (stressLayers (loadStressDataFrom us env' (loadStressDataFrom us env s)))
           = length us
       \<and> (\<forall>l \<in> set (stressLayers (loadStressDataFrom us env s)).
             l \<notin> set (mapLayers (loadStressDataFrom us env' (loadStressDataFrom us env s)))
             \<and> l \<notin> fst ` set (control (loadStressDataFrom us env' (loadStressDataFrom us env s)))
             \<and> l \<notin> set (stressLayers (loadStressDataFrom us env' (loadStressDataFrom us env s))))
       \<and> filter (\<lambda>l. \<not> is_geojson l)
             (mapLayers (loadStressDataFrom us env' (loadStressDataFrom us env s)))
           = filter (\<lambda>l. \<not> is_geojson l) (mapLayers s)
       \<and> filter (\<lambda>e. \<not> is_geojson (fst e))
             (control (loadStressDataFrom us env' (loadStressDataFrom us env s)))
           = filter (\<lambda>e. \<not> is_geojson (fst e)) (control s)"
proof -
  define s1 where "s1 = loadStressDataFrom us env s"
  define s2 where "s2 = loadStressDataFrom us env' s1"
  from assms(2) have ok1: "fst (loadStressData_try us env s) = None"
    by (simp add: try_None_iff)
  from assms(3) have ok2: "fst (loadStressData_try us env' s1) = None"
    by (simp add: try_None_iff)
  note f1 = stress_success_facts [OF assms(1) ok1, folded s1_def]
  note f2 = stress_success_facts [OF f1(1) ok2, folded s2_def]
  have old: "lid l < nextId s1 \<and> is_geojson l" if "l \<in> set (stressLayers s1)" for l
    using f1(1) that by (simp add: tracked_def)
  have new: "nextId s1 \<le> lid l" if "l \<in> set (stressLayers s2)" for l
    using f2(3) that by simp
  have gone: "l \<notin> set (mapLayers s2) \<and> l \<notin> fst ` set (control s2) \<and> l \<notin> set (stressLayers s2)"
    if l: "l \<in> set (stressLayers s1)" for l
  proof -
    from old [OF l] have g: "is_geojson l" and lt: "lid l < nextId s1" by simp_all
    have a: "l \<notin> set (stressLayers s2)" using new [of l] lt by auto
    have "l \<notin> set (filter is_geojson (mapLayers s2))"
      unfolding f2(6) using a by (auto dest: in_set_takeD)
    with g have b: "l \<notin> set (mapLayers s2)" by simp
    have "l \<notin> set (map fst (filter (\<lambda>e. is_geojson (fst e)) (control s2)))"
      unfolding f2(4) by (rule a)
    with g have c: "l \<notin> fst ` set (control s2)" by force
    from a b c show ?thesis by simp
  qed
  have "filter (\<lambda>l. \<not> is_geojson l) (mapLayers s2) = filter (\<lambda>l. \<not> is_geojson l) (mapLayers s)"
    using f1(9) f2(9) by simp
  moreover have "filter (\<lambda>e. \<not> is_geojson (fst e)) (control s2)
      = filter (\<lambda>e. \<not> is_geojson (fst e)) (control s)"
    using f1(10) f2(10) by simp
  ultimately show ?thesis
    using f2(5) f2(4) f2(2) gone distinct_overlay_names [of 0 "length us"]
    unfolding s2_def s1_def by blast
qed

theorem reload_replaces_overlays_witness:
  "tracked after_raster \<and> stress_succeeds urls env_ok
   \<and> map (\<lambda>e. fst (snd e))
         (filter (\<lambda>e. is_geojson (fst e))
            (control (loadStressData env_ok (loadStressData env_ok after_raster))))
       = [''Stress Sample 1'', ''Stress Sample 2'']
   \<and> length (stressLayers (loadStressData env_ok (loadStressData env_ok after_raster))) = 2
   \<and> stressLayers (loadStressData env_ok after_raster) ! 0
       \<notin> set (mapLayers (loadStressData env_ok (loadStressData env_ok after_raster)))
   \<and> stressLayers (loadStressData env_ok after_raster) ! 1
       \<notin> fst ` set (control (loadStressData env_ok (loadStressData env_ok after_raster)))
   \<and> filter (\<lambda>l. \<not> is_geojson l)
         (mapLayers (loadStressData env_ok (loadStressData env_ok after_raster)))
       = filter (\<lambda>l. \<not> is_geojson l) (mapLayers after_raster)"
proof -
  note f = reload_replaces_overlays [OF tracked_after_raster env_ok_succeeds env_ok_succeeds,
      folded loadStressData_def]
  have l: "length urls = 2" by (simp add: urls_def)
  have "fst (loadStressData_try urls env_ok after_raster) = None"
    using env_ok_succeeds by (simp add: try_None_iff)
  from stress_success_facts(2) [OF tracked_after_raster this, folded loadStressData_def] l
  have n: "length (stressLayers (loadStressData env_ok after_raster)) = 2" by simp
  then have m: "stressLayers (loadStressData env_ok after_raster) ! 0
       \<in> set (stressLayers (loadStressData env_ok after_raster))"
    "stressLayers (loadStressData env_ok after_raster) ! 1
       \<in> set (stressLayers (loadStressData env_ok after_raster))"
    by simp_all
  from f have g: "\<forall>l \<in> set (stressLayers (loadStressData env_ok after_raster)).
       l \<notin> set (mapLayers (loadStressData env_ok (loadStressData env_ok after_raster)))
       \<and> l \<notin> fst ` set (control (loadStressData env_ok (loadStressData env_ok after_raster)))
       \<and> l \<notin> set (stressLayers (loadStressData env_ok (loadStressData env_ok after_raster)))"
    by blast
  from g m have "stressLayers (loadStressData env_ok after_raster) ! 0
       \<notin> set (mapLayers (loadStressData env_ok (loadStressData env_ok after_raster)))"
    "stressLayers (loadStressData env_ok after_raster) ! 1
       \<notin> fst ` set (control (loadStressData env_ok (loadStressData env_ok after_raster)))"
    by blast+
  with f l two_names tracked_after_raster env_ok_succeeds show ?thesis by simp
qed

end
